theory Spec2Isabelle
  imports Main "HOL-Library.Word"
begin

unbundle bit_operations_syntax

section \<open>Values, errors and the host\<close>

text \<open>
  The module is Python 2: a \<open>str\<close> is a byte string, modelled as \<^typ>\<open>string\<close>
  (a list of 8-bit characters); integers are unbounded. Every \<open>raise\<close> of the source
  and every exception of a library call the source makes is a value \<open>Inl e\<close> of the
  result type \<open>error + 'a\<close>.

  A packet object built by a packet class of \<open>aochat.core.packets\<close> from a payload is
  the pair of the class's \<open>type\<close> attribute and that payload; \<open>UnexpectedPacket\<close>
  carries either such an object (line 252) or the raw payload (line 262).
\<close>

datatype pobj = RawData string | PacketObj nat string

datatype error =
    ValueError string
  | StructError
  | IndexError
  | OverflowError
  | TypeError
  | AttributeError
  | KeyboardInterrupt
  | ChatError string
  | UnexpectedPacket nat pobj

text \<open>\<open>sys.byteorder\<close> of the machine the client runs on.\<close>

datatype byteorder = LittleEndian | BigEndian

definition bind :: "error + 'a \<Rightarrow> ('a \<Rightarrow> error + 'b) \<Rightarrow> error + 'b" where
  "bind m f = (case m of Inl e \<Rightarrow> Inl e | Inr x \<Rightarrow> f x)"

fun map_err :: "('a \<Rightarrow> error + 'b) \<Rightarrow> 'a list \<Rightarrow> error + 'b list" where
  "map_err f [] = Inr []"
| "map_err f (x # xs) = bind (f x) (\<lambda>y. bind (map_err f xs) (\<lambda>ys. Inr (y # ys)))"

fun getitem :: "'a list \<Rightarrow> nat \<Rightarrow> error + 'a" where
  "getitem xs i = (if i < length xs then Inr (xs ! i) else Inl IndexError)"

section \<open>Library functions used by the key generator\<close>

subsection \<open>Number formatting and parsing\<close>

text \<open>The digits of \<open>n\<close> in base \<open>b\<close>, most significant first, without leading zeros.\<close>

function radix_digits :: "nat \<Rightarrow> nat \<Rightarrow> nat list" where
  "radix_digits b n =
     (if n < b \<or> b < 2 then [n] else radix_digits b (n div b) @ [n mod b])"
  by pat_completeness auto
termination
  by (relation "measure snd") auto

definition hexdigit :: "nat \<Rightarrow> char" where
  "hexdigit d = ''0123456789abcdef'' ! d"

definition decdigit :: "nat \<Rightarrow> char" where
  "decdigit d = ''0123456789'' ! d"

text \<open>\<open>"%x" % n\<close> and \<open>str(n)\<close> for \<open>n \<ge> 0\<close>.\<close>

definition fmt_x :: "nat \<Rightarrow> string" where
  "fmt_x n = map hexdigit (radix_digits 16 n)"

definition str_int :: "nat \<Rightarrow> string" where
  "str_int n = map decdigit (radix_digits 10 n)"

text \<open>
  \<open>"%08x" % v\<close>: at least eight characters, zero-padded after the sign.
\<close>

definition zero_pad :: "nat \<Rightarrow> string \<Rightarrow> string" where
  "zero_pad w s = replicate (w - length s) CHR ''0'' @ s"

definition fmt_08x :: "int \<Rightarrow> string" where
  "fmt_08x v =
     (if v < 0 then CHR ''-'' # zero_pad 7 (fmt_x (nat (- v)))
      else zero_pad 8 (fmt_x (nat v)))"

text \<open>
  \<open>int(s, 16)\<close> on a string of hexadecimal digits; the source applies it only to
  pieces of the output of \<open>"%x"\<close>. Anything else is a \<open>ValueError\<close> here.
\<close>

definition hexval :: "char \<Rightarrow> nat option" where
  "hexval c =
     (let v = (of_char c :: nat) in
      if 48 \<le> v \<and> v \<le> 57 then Some (v - 48)
      else if 97 \<le> v \<and> v \<le> 102 then Some (v - 87)
      else if 65 \<le> v \<and> v \<le> 70 then Some (v - 55)
      else None)"

fun int_hex_acc :: "nat \<Rightarrow> string \<Rightarrow> error + nat" where
  "int_hex_acc acc [] = Inr acc"
| "int_hex_acc acc (c # cs) =
     (case hexval c of
        None \<Rightarrow> Inl (ValueError ''invalid literal for int() with base 16'')
      | Some d \<Rightarrow> int_hex_acc (16 * acc + d) cs)"

definition int_base16 :: "string \<Rightarrow> error + nat" where
  "int_base16 s =
     (if s = [] then Inl (ValueError ''invalid literal for int() with base 16'')
      else int_hex_acc 0 s)"

subsection \<open>struct\<close>

text \<open>
  \<open>struct.pack(">Q", v)\<close> and \<open>struct.pack(">I", v)\<close>: big-endian;
  \<open>struct.error\<close> when the value does not fit in \<open>nbytes\<close> bytes.
\<close>

fun be_bytes :: "nat \<Rightarrow> nat \<Rightarrow> string" where
  "be_bytes 0 v = []"
| "be_bytes (Suc k) v = be_bytes k (v div 256) @ [char_of (v mod 256)]"

definition struct_pack_be :: "nat \<Rightarrow> nat \<Rightarrow> error + string" where
  "struct_pack_be nbytes v =
     (if v < 256 ^ nbytes then Inr (be_bytes nbytes v) else Inl StructError)"

text \<open>The first \<open>n\<close> consecutive pieces of \<open>k\<close> elements.\<close>

fun chunks :: "nat \<Rightarrow> nat \<Rightarrow> 'a list \<Rightarrow> 'a list list" where
  "chunks 0 k s = []"
| "chunks (Suc n) k s = take k s # chunks n k (drop k s)"

text \<open>\<open>struct.unpack("8s" * n, s)\<close>: the string must be exactly \<open>8 * n\<close> bytes.\<close>

definition struct_unpack_8s :: "nat \<Rightarrow> string \<Rightarrow> error + string list" where
  "struct_unpack_8s n s =
     (if length s \<noteq> 8 * n then Inl StructError else Inr (chunks n 8 s))"

text \<open>
  \<open>struct.unpack("I" * n, s)\<close>: no byte-order character, so native order and native
  size (four bytes): each word is read in the byte order of the host.
\<close>

definition be_value :: "string \<Rightarrow> nat" where
  "be_value bs = foldl (\<lambda>acc c. 256 * acc + of_char c) 0 bs"

definition native_u32 :: "byteorder \<Rightarrow> string \<Rightarrow> int" where
  "native_u32 host bs =
     (case host of
        BigEndian \<Rightarrow> int (be_value bs)
      | LittleEndian \<Rightarrow> int (be_value (rev bs)))"

definition struct_unpack_I :: "byteorder \<Rightarrow> nat \<Rightarrow> string \<Rightarrow> error + int list" where
  "struct_unpack_I host n s =
     (if length s \<noteq> 4 * n then Inl StructError
      else Inr (map (native_u32 host) (chunks n 4 s)))"

subsection \<open>socket.ntohl and socket.htonl\<close>

text \<open>
  \<open>struct.pack("I", w)\<close>: the four bytes of \<open>w\<close> in the byte order of the host.
  \<open>ntohl(x)\<close> is the number whose bytes in host order are the bytes of \<open>x\<close> in
  network (big-endian) order, \<open>htonl(x)\<close> the number whose bytes in network order
  are the bytes of \<open>x\<close> in host order; both raise \<open>OverflowError\<close> outside 32 bits.
\<close>

definition native_bytes :: "byteorder \<Rightarrow> int \<Rightarrow> string" where
  "native_bytes host w =
     (case host of
        BigEndian \<Rightarrow> be_bytes 4 (nat w)
      | LittleEndian \<Rightarrow> rev (be_bytes 4 (nat w)))"

definition ntohl :: "byteorder \<Rightarrow> int \<Rightarrow> error + int" where
  "ntohl host x =
     (if x < 0 \<or> 2 ^ 32 \<le> x then Inl OverflowError
      else Inr (native_u32 host (be_bytes 4 (nat x))))"

definition htonl :: "byteorder \<Rightarrow> int \<Rightarrow> error + int" where
  "htonl host x =
     (if x < 0 \<or> 2 ^ 32 \<le> x then Inl OverflowError
      else Inr (int (be_value (native_bytes host x))))"

section \<open>The login key generator\<close>

subsection \<open>\<open>_tea_encrypt\<close>\<close>

definition delta :: int where
  "delta = 0x9E3779B9"

text \<open>
  The term added to one half in a round:
  \<open>(((v << 4 & 0xFFFFFFF0) + ka) ^ (v + sum) ^ ((v >> 5 & 0x7FFFFFF) + kb)) & 0xFFFFFFFF\<close>.
\<close>

definition tea_mix :: "int \<Rightarrow> int \<Rightarrow> int \<Rightarrow> int \<Rightarrow> int" where
  "tea_mix v sm ka kb =
     ((((push_bit 4 v) AND 0xFFFFFFF0) + ka) XOR (v + sm)
        XOR (((drop_bit 5 v) AND 0x7FFFFFF) + kb)) AND 0xFFFFFFFF"

fun tea_loop :: "nat \<Rightarrow> int \<Rightarrow> int \<Rightarrow> int \<Rightarrow> int list \<Rightarrow> error + int \<times> int" where
  "tea_loop 0 sm a b keys = Inr (a, b)"
| "tea_loop (Suc i) sm a b keys =
     (let sm' = (sm + delta) AND 0xFFFFFFFF in
      bind (getitem keys 0) (\<lambda>k0.
      bind (getitem keys 1) (\<lambda>k1.
      let a' = (a + tea_mix b sm' k0 k1) AND 0xFFFFFFFF in
      bind (getitem keys 2) (\<lambda>k2.
      bind (getitem keys 3) (\<lambda>k3.
      let b' = (b + tea_mix a' sm' k2 k3) AND 0xFFFFFFFF in
      tea_loop i sm' a' b' keys)))))"

definition tea_encrypt :: "int \<times> int \<Rightarrow> int list \<Rightarrow> error + int \<times> int" where
  "tea_encrypt cycle keys = tea_loop 32 0 (fst cycle) (snd cycle) keys"

subsection \<open>\<open>_crypt\<close>\<close>

text \<open>
  Line 119: the key is printed in hexadecimal, cut into as many 8-character pieces as
  an eighth of the length of its \<^emph>\<open>decimal\<close> representation, and each piece is
  parsed and passed through \<open>ntohl\<close>.
\<close>

definition crypt_keys :: "byteorder \<Rightarrow> nat \<Rightarrow> error + int list" where
  "crypt_keys host key =
     bind (struct_unpack_8s (length (str_int key) div 8) (fmt_x key))
       (map_err (\<lambda>s. bind (int_base16 s) (\<lambda>v. ntohl host (int v))))"

definition crypt_block_hex :: "byteorder \<Rightarrow> int \<times> int \<Rightarrow> error + string" where
  "crypt_block_hex host result =
     bind (htonl host (fst result)) (\<lambda>h0.
     bind (htonl host (snd result)) (\<lambda>h1.
     Inr (fmt_08x (h0 AND 0xFFFFFFFF) @ fmt_08x (h1 AND 0xFFFFFFFF))))"

lemma bind_cong [fundef_cong]:
  "m = m' \<Longrightarrow> (\<And>x. m' = Inr x \<Longrightarrow> f x = f' x) \<Longrightarrow> bind m f = bind m' f'"
  by (cases m') (simp_all add: bind_def)

function crypt_loop ::
  "byteorder \<Rightarrow> int list \<Rightarrow> int list \<Rightarrow> nat \<Rightarrow> int \<times> int \<Rightarrow> string \<Rightarrow> error + string" where
  "crypt_loop host keys data i result crypted =
     (if i < length data then
        bind (getitem data i) (\<lambda>d0.
        bind (getitem data (i + 1)) (\<lambda>d1.
        let cycle = (d0 XOR fst result, d1 XOR snd result) in
        bind (tea_encrypt cycle keys) (\<lambda>result'.
        bind (crypt_block_hex host result') (\<lambda>hex.
        crypt_loop host keys data (i + 2) result' (crypted @ hex)))))
      else Inr crypted)"
  by pat_completeness auto
termination
  by (relation "measure (\<lambda>(host, keys, data, i, result, crypted). length data - i)") auto

definition crypt :: "byteorder \<Rightarrow> nat \<Rightarrow> string \<Rightarrow> error + string" where
  "crypt host key plain =
     (if length plain mod 8 \<noteq> 0
      then Inl (ValueError ''Length of plain text must be multiple of 8.'')
      else
        bind (crypt_keys host key) (\<lambda>keys.
        bind (struct_unpack_I host (length plain div 4) plain) (\<lambda>data.
        crypt_loop host keys data 0 (0, 0) [])))"

subsection \<open>\<open>generate_login_key\<close>\<close>

definition dhY :: nat where
  "dhY = 0x9C32CC23D559CA90FC31BE72DF817D0E124769E809F936BC14360FF4BED758F260A0D596584EACBBC2B88BDD410416163E11DBF62173393FBC0C6FEFB2D855F1A03DEC8E9F105BBAD91B3437D8EB73FE2F44159597AA4053CF788D2F9D7012FB8D7C4CE3876F7D6CD5D0C31754F4CD96166708641958DE54A6DEF5657B9F2E92"

definition dhN :: nat where
  "dhN = 0xECA2E8C85D863DCDC26A429A71A9815AD052F6139669DD659F98AE159D313D13C6BF2838E10A69B6478B64A24BD054BA8248E8FA778703B418408249440B2C1EDD28853E240D8A7E49540B76D120D3B1AD2878B1B99490EB4A2A5E84CAA8A91CECBDB1AA7C816E8BE343246F80C637ABC653B893FD91686CF8D32D6CFE5F2A6F"

definition dhG :: nat where
  "dhG = 0x5"

text \<open>
  The two random draws are parameters: the private exponent \<open>dhx\<close>, drawn from
  \<open>[0, 2 ** 256)\<close>, and the nonce, drawn from \<open>[0, 2 ** 64)\<close>.

  Line 94: \<open>dhK = int(("%x" % pow(dhY, dhx, dhN))[:32], 16)\<close>.
\<close>

definition shared_secret :: "256 word \<Rightarrow> nat" where
  "shared_secret dhx = dhY ^ unat dhx mod dhN"

definition dh_key :: "256 word \<Rightarrow> error + nat" where
  "dh_key dhx = int_base16 (take 32 (fmt_x (shared_secret dhx)))"

text \<open>Lines 96 to 101: the challenge plaintext.\<close>

definition challenge_plain :: "64 word \<Rightarrow> string \<Rightarrow> string \<Rightarrow> string \<Rightarrow> error + string" where
  "challenge_plain nonce server_key username password =
     (let challenge = username @ ''|'' @ server_key @ ''|'' @ password in
      bind (struct_pack_be 8 (unat nonce)) (\<lambda>prefix.
      let len = 8 + 4 + length challenge;
          pad = replicate ((8 - len mod 8) mod 8) CHR '' '' in
      bind (struct_pack_be 4 (length challenge)) (\<lambda>len4.
      Inr (prefix @ len4 @ challenge @ pad))))"

definition generate_login_key ::
  "byteorder \<Rightarrow> 256 word \<Rightarrow> 64 word \<Rightarrow> string \<Rightarrow> string \<Rightarrow> string \<Rightarrow> error + string" where
  "generate_login_key host dhx nonce server_key username password =
     (let dhX = dhG ^ unat dhx mod dhN in
      bind (dh_key dhx) (\<lambda>dhK.
      bind (challenge_plain nonce server_key username password) (\<lambda>plain.
      bind (crypt host dhK plain) (\<lambda>crypted.
      Inr (fmt_x dhX @ ''-'' @ crypted)))))"

section \<open>The connection\<close>

text \<open>
  The socket is the environment of the client. Its state holds what the network will
  deliver to the coming \<open>recv\<close> calls and how the coming \<open>send\<close> calls will
  behave, the bytes it has accepted so far, and whether \<open>close\<close> has been called
  on it. A \<open>recv\<close> returns at most the requested number of bytes of the next piece
  of data and leaves the remainder for the next call; an empty string is returned
  when the peer has closed the stream (no event is left, or an empty piece of data).
  A call on a closed socket raises \<open>socket.error\<close> with \<open>EBADF\<close>.
\<close>

datatype sock_exc = SocketError int string | SocketTimeout

datatype recv_event = Data string | RecvRaises sock_exc

datatype send_event = Accepts nat | SendRaises sock_exc

record sock =
  incoming :: "recv_event list"
  outgoing :: "send_event list"
  sent :: string
  closed :: bool

definition EBADF :: sock_exc where
  "EBADF = SocketError 9 ''Bad file descriptor''"

definition recv :: "nat \<Rightarrow> sock \<Rightarrow> (sock_exc + string) \<times> sock" where
  "recv bufsize s =
     (if closed s then (Inl EBADF, s)
      else case incoming s of
        [] \<Rightarrow> (Inr [], s)
      | Data d # rest \<Rightarrow>
          (Inr (take bufsize d),
           s\<lparr>incoming := (if length d \<le> bufsize then rest else Data (drop bufsize d) # rest)\<rparr>)
      | RecvRaises x # rest \<Rightarrow> (Inl x, s\<lparr>incoming := rest\<rparr>))"

definition send :: "string \<Rightarrow> sock \<Rightarrow> (sock_exc + nat) \<times> sock" where
  "send data s =
     (if closed s then (Inl EBADF, s)
      else case outgoing s of
        [] \<Rightarrow> (Inr (length data), s\<lparr>sent := sent s @ data\<rparr>)
      | Accepts n # rest \<Rightarrow>
          (Inr (min n (length data)),
           s\<lparr>outgoing := rest, sent := sent s @ take (min n (length data)) data\<rparr>)
      | SendRaises x # rest \<Rightarrow> (Inl x, s\<lparr>outgoing := rest\<rparr>))"

definition close :: "sock \<Rightarrow> sock" where
  "close s = s\<lparr>closed := True\<rparr>"

subsection \<open>The exception handlers around \<open>recv\<close> and \<open>send\<close>\<close>

text \<open>
  In Python 2 \<open>socket.timeout\<close> is a subclass of \<open>socket.error\<close>. The arguments of
  a \<open>socket.error\<close> are the error number and its message; the only argument of a
  \<open>socket.timeout\<close> is the string \<open>timed out\<close>. \<open>tuple(error)\<close> is the tuple of
  the arguments.
\<close>

fun isinstance_socket_error :: "sock_exc \<Rightarrow> bool" where
  "isinstance_socket_error (SocketError code msg) = True"
| "isinstance_socket_error SocketTimeout = True"

fun isinstance_socket_timeout :: "sock_exc \<Rightarrow> bool" where
  "isinstance_socket_timeout (SocketError code msg) = False"
| "isinstance_socket_timeout SocketTimeout = True"

datatype arg = IntArg int | StrArg string

fun exc_args :: "sock_exc \<Rightarrow> arg list" where
  "exc_args (SocketError code msg) = [IntArg code, StrArg msg]"
| "exc_args SocketTimeout = [StrArg ''timed out'']"

definition str_of_int :: "int \<Rightarrow> string" where
  "str_of_int i = (if i < 0 then CHR ''-'' # str_int (nat (- i)) else str_int (nat i))"

text \<open>
  \<open>"Socket error %d: %s" % args\<close>: \<open>TypeError\<close> unless there are exactly two
  arguments and the first is a number.
\<close>

fun fmt_socket_error :: "arg list \<Rightarrow> error + string" where
  "fmt_socket_error [IntArg code, StrArg msg] =
     Inr (''Socket error '' @ str_of_int code @ '': '' @ msg)"
| "fmt_socket_error [IntArg code, IntArg i] =
     Inr (''Socket error '' @ str_of_int code @ '': '' @ str_of_int i)"
| "fmt_socket_error args = Inl TypeError"

text \<open>
  Lines 205 to 208 (and 224 to 227): the \<open>except\<close> clauses are tried in the order
  they are written, \<open>socket.error\<close> first.
\<close>

definition socket_failure :: "sock_exc \<Rightarrow> error" where
  "socket_failure x =
     (if isinstance_socket_error x then
        (case fmt_socket_error (exc_args x) of
           Inl e \<Rightarrow> e
         | Inr msg \<Rightarrow> ChatError msg)
      else if isinstance_socket_timeout x then ChatError ''Connection timed out.''
      else ChatError ''unreachable'')"

section \<open>The chat session\<close>

text \<open>
  The module \<open>aochat.core.packets\<close> is not part of the sources at hand; what the
  session uses of it is a parameter: the registry of server packet classes (a class is
  identified by its \<open>type\<close> attribute), the \<open>type\<close> of the five server packet
  classes named in the session, the \<open>pack\<close> method of the client packets, and the
  attributes read from decoded packets, as functions of the payload. Decoding is
  taken to be total.
\<close>

record character =
  cid :: int
  cname :: string

datatype cpacket = AOCP_AUTH string string | AOCP_LOGIN int | AOCP_PING

record packets =
  SERVER_PACKETS :: "nat \<rightharpoonup> nat"
  AOSP_SEED :: nat
  AOSP_LOGIN_OK :: nat
  AOSP_AUTH_ERROR :: nat
  AOSP_CHARACTERS_LIST :: nat
  AOSP_PING :: nat
  pack :: "cpacket \<Rightarrow> string"
  server_key_of :: "string \<Rightarrow> string"
  characters_of :: "string \<Rightarrow> character list"
  message_of :: "string \<Rightarrow> string"

text \<open>What the \<open>print\<close> statements of the session write.\<close>

datatype printed =
    Got_packet pobj
  | Sent_packet cpacket
  | Unexpected_packet nat pobj
  | Hup
  | Err

record chat =
  socket :: sock
  character :: "character option"
  characters :: "character list"
  stdout :: "printed list"

definition print :: "printed \<Rightarrow> chat \<Rightarrow> chat" where
  "print out c = c\<lparr>stdout := stdout c @ [out]\<rparr>"

text \<open>An attribute of a packet object; a raw payload (a \<open>str\<close>) has none.\<close>

fun attr :: "(string \<Rightarrow> 'a) \<Rightarrow> pobj \<Rightarrow> error + 'a" where
  "attr f (PacketObj t d) = Inr (f d)"
| "attr f (RawData d) = Inl AttributeError"

fun ptype :: "pobj \<Rightarrow> error + nat" where
  "ptype (PacketObj t d) = Inr t"
| "ptype (RawData d) = Inl AttributeError"

subsection \<open>\<open>__read_socket\<close> and \<open>__write_socket\<close>\<close>

function read_loop :: "nat \<Rightarrow> string \<Rightarrow> chat \<Rightarrow> (error + string) \<times> chat" where
  "read_loop bytes data c =
     (if bytes > 0 then
        (case recv bytes (socket c) of
           (Inl x, s) \<Rightarrow> (Inl (socket_failure x), c\<lparr>socket := s\<rparr>)
         | (Inr chunk, s) \<Rightarrow>
             if chunk = [] then (Inl (ChatError ''Connection broken.''), c\<lparr>socket := s\<rparr>)
             else read_loop (bytes - length chunk) (data @ chunk) (c\<lparr>socket := s\<rparr>))
      else (Inr data, c))"
  by pat_completeness auto
termination
  by (relation "measure (\<lambda>(bytes, data, c). bytes)") auto

definition read_socket :: "nat \<Rightarrow> chat \<Rightarrow> (error + string) \<times> chat" where
  "read_socket bytes c = read_loop bytes [] c"

function write_loop :: "string \<Rightarrow> nat \<Rightarrow> chat \<Rightarrow> (error + unit) \<times> chat" where
  "write_loop data bytes c =
     (if bytes > 0 then
        (case send data (socket c) of
           (Inl x, s) \<Rightarrow> (Inl (socket_failure x), c\<lparr>socket := s\<rparr>)
         | (Inr n, s) \<Rightarrow>
             if n = 0 then (Inl (ChatError ''Connection broken.''), c\<lparr>socket := s\<rparr>)
             else write_loop (drop n data) (bytes - n) (c\<lparr>socket := s\<rparr>))
      else (Inr (), c))"
  by pat_completeness auto
termination
  by (relation "measure (\<lambda>(data, bytes, c). bytes)") auto

definition write_socket :: "string \<Rightarrow> chat \<Rightarrow> (error + unit) \<times> chat" where
  "write_socket data c = write_loop data (length data) c"

subsection \<open>\<open>wait_packet\<close> and \<open>send_packet\<close>\<close>

text \<open>\<open>struct.unpack(">2H", head)\<close>.\<close>

definition struct_unpack_2H :: "string \<Rightarrow> error + nat \<times> nat" where
  "struct_unpack_2H head =
     (if length head \<noteq> 4 then Inl StructError
      else Inr (be_value (take 2 head), be_value (drop 2 head)))"

text \<open>
  \<open>Expect\<close> and \<open>Error\<close> are packet classes or \<open>None\<close>; a class is true in a
  condition.
\<close>

definition wait_packet ::
  "packets \<Rightarrow> nat option \<Rightarrow> nat option \<Rightarrow> chat \<Rightarrow> (error + pobj) \<times> chat" where
  "wait_packet P Expect Error c =
     (case read_socket 4 c of
        (Inl e, c1) \<Rightarrow> (Inl e, c1)
      | (Inr head, c1) \<Rightarrow>
     (case struct_unpack_2H head of
        Inl e \<Rightarrow> (Inl e, c1)
      | Inr (packet_type, packet_length) \<Rightarrow>
     (case read_socket packet_length c1 of
        (Inl e, c2) \<Rightarrow> (Inl e, c2)
      | (Inr data, c2) \<Rightarrow>
     (case Expect of
        Some expect \<Rightarrow>
          if packet_type \<noteq> expect then
            (case Error of
               Some err \<Rightarrow>
                 if packet_type = err
                 then (Inl (UnexpectedPacket packet_type (PacketObj err data)), c2)
                 else (Inl (ChatError ''Unexpected error.''), c2)
             | None \<Rightarrow> (Inl (ChatError ''Unexpected error.''), c2))
          else (Inr (PacketObj expect data), print (Got_packet (PacketObj expect data)) c2)
      | None \<Rightarrow>
          (case SERVER_PACKETS P packet_type of
             None \<Rightarrow> (Inl (UnexpectedPacket packet_type (RawData data)), c2)
           | Some cls \<Rightarrow>
               (Inr (PacketObj cls data), print (Got_packet (PacketObj cls data)) c2))))))"

definition send_packet ::
  "packets \<Rightarrow> cpacket \<Rightarrow> nat option \<Rightarrow> nat option \<Rightarrow> chat \<Rightarrow> (error + pobj option) \<times> chat" where
  "send_packet P packet Expect Error c =
     (case write_socket (pack P packet) c of
        (Inl e, c1) \<Rightarrow> (Inl e, c1)
      | (Inr u, c1) \<Rightarrow>
          (if Expect \<noteq> None then
             (case wait_packet P Expect Error (print (Sent_packet packet) c1) of
                (Inl e, c2) \<Rightarrow> (Inl e, c2)
              | (Inr reply, c2) \<Rightarrow> (Inr (Some reply), c2))
           else (Inr None, print (Sent_packet packet) c1)))"

subsection \<open>\<open>__init__\<close>\<close>

text \<open>
  Lines 185 to 197, on the object that holds the connected socket. The two random
  draws of \<open>generate_login_key\<close> and the host are parameters.
\<close>

definition handshake ::
  "byteorder \<Rightarrow> 256 word \<Rightarrow> 64 word \<Rightarrow> packets \<Rightarrow> string \<Rightarrow> string \<Rightarrow> chat
     \<Rightarrow> (error + unit) \<times> chat" where
  "handshake host dhx nonce P username password c =
     (case (case wait_packet P (Some (AOSP_SEED P)) None c of
              (Inl e, c1) \<Rightarrow> (Inl e, c1)
            | (Inr packet, c1) \<Rightarrow>
                (bind (attr (server_key_of P) packet) (\<lambda>server_key.
                   generate_login_key host dhx nonce server_key username password), c1)) of
        (Inl (UnexpectedPacket t p), c1) \<Rightarrow>
          (Inl (ChatError (''Invalid greeting packet: '' @ str_int t)), c1)
      | (Inl e, c1) \<Rightarrow> (Inl e, c1)
      | (Inr login_key, c1) \<Rightarrow>
     (case (case send_packet P (AOCP_AUTH username login_key)
                   (Some (AOSP_CHARACTERS_LIST P)) (Some (AOSP_AUTH_ERROR P))
                   (c1\<lparr>character := None\<rparr>) of
              (Inl e, c2) \<Rightarrow> (Inl e, c2)
            | (Inr None, c2) \<Rightarrow> (Inl AttributeError, c2)
            | (Inr (Some packet), c2) \<Rightarrow>
                (case attr (characters_of P) packet of
                   Inl e \<Rightarrow> (Inl e, c2)
                 | Inr chars \<Rightarrow> (Inr (), c2\<lparr>characters := chars\<rparr>))) of
        (Inl (UnexpectedPacket t p), c2) \<Rightarrow>
          (case attr (message_of P) p of
             Inl e \<Rightarrow> (Inl e, c2)
           | Inr msg \<Rightarrow> (Inl (ChatError msg), c2))
      | (Inl e, c2) \<Rightarrow> (Inl e, c2)
      | (Inr u, c2) \<Rightarrow> (Inr (), c2)))"

text \<open>
  Lines 180 to 183: \<open>socket.create_connection\<close> either raises or yields the socket;
  then the handshake runs on the new object.
\<close>

definition chat_init ::
  "byteorder \<Rightarrow> 256 word \<Rightarrow> 64 word \<Rightarrow> packets \<Rightarrow> string \<Rightarrow> string \<Rightarrow> sock_exc + sock
     \<Rightarrow> (error + unit) \<times> chat option" where
  "chat_init host dhx nonce P username password connection =
     (case connection of
        Inl x \<Rightarrow>
          (case fmt_socket_error (exc_args x) of
             Inl e \<Rightarrow> (Inl e, None)
           | Inr msg \<Rightarrow> (Inl (ChatError msg), None))
      | Inr s \<Rightarrow>
          (case handshake host dhx nonce P username password
                  \<lparr>socket = s, character = None, characters = [], stdout = []\<rparr> of
             (r, c) \<Rightarrow> (r, Some c)))"

subsection \<open>\<open>login\<close>, \<open>logout\<close> and \<open>ping\<close>\<close>

text \<open>
  The \<open>for\<close> loop of \<open>login\<close> with its \<open>else\<close>: the first character of the list
  with the requested id, if there is one.
\<close>

fun lookup_character :: "int \<Rightarrow> character list \<Rightarrow> character option" where
  "lookup_character character_id [] = None"
| "lookup_character character_id (ch # rest) =
     (if character_id = cid ch then Some ch else lookup_character character_id rest)"

definition login :: "packets \<Rightarrow> int \<Rightarrow> chat \<Rightarrow> (error + unit) \<times> chat" where
  "login P character_id c =
     (case lookup_character character_id (characters c) of
        None \<Rightarrow> (Inl (ChatError ''no valid characters to login.''), c)
      | Some ch \<Rightarrow>
          (case send_packet P (AOCP_LOGIN character_id)
                  (Some (AOSP_LOGIN_OK P)) (Some (AOSP_AUTH_ERROR P)) c of
             (Inl (UnexpectedPacket t p), c1) \<Rightarrow>
               (case attr (message_of P) p of
                  Inl e \<Rightarrow> (Inl e, c1)
                | Inr msg \<Rightarrow> (Inl (ChatError msg), c1))
           | (Inl e, c1) \<Rightarrow> (Inl e, c1)
           | (Inr reply, c1) \<Rightarrow> (Inr (), c1\<lparr>character := Some ch\<rparr>)))"

definition logout :: "chat \<Rightarrow> chat" where
  "logout c = c\<lparr>character := None\<rparr>"

definition ping :: "packets \<Rightarrow> chat \<Rightarrow> (error + unit) \<times> chat" where
  "ping P c =
     (case send_packet P AOCP_PING (Some (AOSP_PING P)) None c of
        (Inl e, c1) \<Rightarrow> (Inl e, c1)
      | (Inr reply, c1) \<Rightarrow> (Inr (), c1))"

subsection \<open>\<open>start\<close>\<close>

text \<open>
  The event masks of \<open>select\<close>. What \<open>poll.poll(ping_interval)\<close> returns, call after
  call, is a parameter of the loop: a list of (file descriptor, event) pairs, empty
  when the interval has elapsed with nothing to report, or a \<open>KeyboardInterrupt\<close>.
  A handler is a function of the session and the packet; it may change the session
  and it may raise.
\<close>

definition POLLIN :: nat where "POLLIN = 1"
definition POLLERR :: nat where "POLLERR = 8"
definition POLLHUP :: nat where "POLLHUP = 16"

datatype poll_result = Ready "(int \<times> nat) list" | Interrupted

datatype flow = Next | Return

datatype status = Returned | Polling

type_synonym handler = "chat \<Rightarrow> pobj \<Rightarrow> (error + unit) \<times> chat"

text \<open>The \<open>for\<close> loop over the reported events (lines 334 to 349).\<close>

fun handle_events ::
  "packets \<Rightarrow> (nat \<rightharpoonup> handler) \<Rightarrow> (int \<times> nat) list \<Rightarrow> chat \<Rightarrow> (error + flow) \<times> chat" where
  "handle_events P events [] c = (Inr Next, c)"
| "handle_events P events ((fd, io_event) # rest) c =
     (if io_event = POLLIN then
        (case wait_packet P None None c of
           (Inl (UnexpectedPacket t data), c1) \<Rightarrow>
             handle_events P events rest (print (Unexpected_packet t data) c1)
         | (Inl e, c1) \<Rightarrow> (Inl e, c1)
         | (Inr packet, c1) \<Rightarrow>
             (case ptype packet of
                Inl e \<Rightarrow> (Inl e, c1)
              | Inr t \<Rightarrow>
                  (case events t of
                     None \<Rightarrow> handle_events P events rest c1
                   | Some h \<Rightarrow>
                       (case h c1 packet of
                          (Inl e, c2) \<Rightarrow> (Inl e, c2)
                        | (Inr u, c2) \<Rightarrow> handle_events P events rest c2))))
      else if io_event = POLLHUP then (Inr Return, print Hup c)
      else if io_event = POLLERR then (Inr Return, print Err c)
      else handle_events P events rest c)"

text \<open>
  The \<open>while True\<close> loop, one call of \<open>poll\<close> per round. When the given poll results
  are used up the loop is waiting in \<open>poll\<close>: the status is \<open>Polling\<close>. A
  \<open>KeyboardInterrupt\<close> inside the \<open>try\<close> leaves the loop; any other exception
  leaves \<open>start\<close>.
\<close>

fun start_loop ::
  "packets \<Rightarrow> (nat \<rightharpoonup> handler) \<Rightarrow> poll_result list \<Rightarrow> chat \<Rightarrow> (error + status) \<times> chat" where
  "start_loop P events [] c = (Inr Polling, c)"
| "start_loop P events (Interrupted # polls) c = (Inr Returned, c)"
| "start_loop P events (Ready io_events # polls) c =
     (case handle_events P events io_events c of
        (Inl KeyboardInterrupt, c1) \<Rightarrow> (Inr Returned, c1)
      | (Inl e, c1) \<Rightarrow> (Inl e, c1)
      | (Inr Return, c1) \<Rightarrow> (Inr Returned, c1)
      | (Inr Next, c1) \<Rightarrow>
          (if io_events = [] then
             (case ping P c1 of
                (Inl KeyboardInterrupt, c2) \<Rightarrow> (Inr Returned, c2)
              | (Inl e, c2) \<Rightarrow> (Inl e, c2)
              | (Inr u, c2) \<Rightarrow> start_loop P events polls c2)
           else start_loop P events polls c1))"

definition start :: "packets \<Rightarrow> (nat \<rightharpoonup> handler) \<Rightarrow> poll_result list \<Rightarrow> chat \<Rightarrow> (error + status) \<times> chat" where
  "start P events polls c = start_loop P events polls c"

section \<open>Streams and frames\<close>

text \<open>
  What is left of a stream that arrives in the pieces \<open>ds\<close> once \<open>n\<close> bytes have
  been received from it.
\<close>

fun drop_bytes :: "nat \<Rightarrow> string list \<Rightarrow> string list" where
  "drop_bytes n [] = []"
| "drop_bytes n (d # ds) =
     (if n = 0 then d # ds
      else if length d \<le> n then drop_bytes (n - length d) ds
      else drop n d # ds)"

text \<open>
  A packet on the wire, in the format \<open>wait_packet\<close> reads: the type and the length
  of the payload as 2-byte big-endian numbers, then the payload.
\<close>

definition frame :: "nat \<Rightarrow> string \<Rightarrow> string" where
  "frame t data = be_bytes 2 t @ be_bytes 2 (length data) @ data"

text \<open>
  An instance of the packet module, for the examples: the type numbers of the
  protocol, payloads that are their own attributes, and client packets packed as
  frames.
\<close>

definition example_packets :: packets where
  "example_packets =
     \<lparr>SERVER_PACKETS = [0 \<mapsto> 0, 5 \<mapsto> 5, 6 \<mapsto> 6, 7 \<mapsto> 7, 100 \<mapsto> 100],
      AOSP_SEED = 0, AOSP_LOGIN_OK = 5, AOSP_AUTH_ERROR = 6,
      AOSP_CHARACTERS_LIST = 7, AOSP_PING = 100,
      pack = (\<lambda>p. case p of
                AOCP_AUTH username key \<Rightarrow> frame 2 (username @ key)
              | AOCP_LOGIN character_id \<Rightarrow> frame 3 (str_of_int character_id)
              | AOCP_PING \<Rightarrow> frame 100 []),
      server_key_of = (\<lambda>d. d),
      characters_of = (\<lambda>d. map (\<lambda>b. \<lparr>cid = of_char b, cname = [b]\<rparr>) d),
      message_of = (\<lambda>d. d)\<rparr>"

text \<open>
  A session for the examples: an open socket that accepts every write at once and
  will deliver the given events, and three characters received at authentication.
\<close>

definition example_sock :: "recv_event list \<Rightarrow> sock" where
  "example_sock evs = \<lparr>incoming = evs, outgoing = [], sent = [], closed = False\<rparr>"

definition example_chat :: "recv_event list \<Rightarrow> chat" where
  "example_chat evs =
     \<lparr>socket = example_sock evs, character = None,
      characters = [\<lparr>cid = 1, cname = ''Ann''\<rparr>, \<lparr>cid = 42, cname = ''Bob''\<rparr>,
                    \<lparr>cid = 3, cname = ''Cy''\<rparr>],
      stdout = []\<rparr>"

text \<open>A handler that raises whenever it is called.\<close>

definition failing_handler :: handler where
  "failing_handler c p = (Inl TypeError, c)"

section \<open>The cipher as the specification describes it\<close>

text \<open>
  The digits of \<open>n\<close> in base \<open>b\<close> in a field of \<open>k\<close> digits, most significant
  first (the low \<open>k\<close> digits, with leading zeros).
\<close>

fun digits_w :: "nat \<Rightarrow> nat \<Rightarrow> nat \<Rightarrow> nat list" where
  "digits_w b 0 n = []"
| "digits_w b (Suc k) n = digits_w b k (n div b) @ [n mod b]"

text \<open>The range of an unsigned 32-bit word.\<close>

definition u32 :: "int \<Rightarrow> bool" where
  "u32 x \<longleftrightarrow> 0 \<le> x \<and> x < 2 ^ 32"

text \<open>
  One round of TEA on the state (sum, a, b), as one pass through the loop of
  \<open>_tea_encrypt\<close> computes it with four key words, and the block cipher of 32 rounds.
\<close>

definition tea_round :: "int list \<Rightarrow> int \<times> int \<times> int \<Rightarrow> int \<times> int \<times> int" where
  "tea_round keys st =
     (case st of (sm, a, b) \<Rightarrow>
        let sm' = (sm + delta) AND 0xFFFFFFFF;
            a' = (a + tea_mix b sm' (keys ! 0) (keys ! 1)) AND 0xFFFFFFFF;
            b' = (b + tea_mix a' sm' (keys ! 2) (keys ! 3)) AND 0xFFFFFFFF
        in (sm', a', b'))"

definition tea_block :: "int list \<Rightarrow> int \<times> int \<Rightarrow> int \<times> int" where
  "tea_block keys block = snd ((tea_round keys ^^ 32) (0, fst block, snd block))"

text \<open>
  Cipher-block chaining over a list of words, two words to a block:
  \<open>C\<^sub>i = TEA(P\<^sub>i XOR C\<^sub>i\<^sub>-\<^sub>1)\<close>.
\<close>

fun cbc_words :: "int list \<Rightarrow> int \<times> int \<Rightarrow> int list \<Rightarrow> int list" where
  "cbc_words keys prev (d0 # d1 # ds) =
     (let r = tea_block keys (d0 XOR fst prev, d1 XOR snd prev)
      in fst r # snd r # cbc_words keys r ds)"
| "cbc_words keys prev ds = []"

text \<open>
  The encryption with every conversion between bytes and words made in one byte
  order \<open>bo\<close>: the key is the 16 bytes that its 32 hexadecimal digits denote, read as
  four words; the plaintext is read as words; the words of the ciphertext are written
  as bytes, and the bytes in lowercase hexadecimal.
\<close>

definition key_words :: "byteorder \<Rightarrow> nat \<Rightarrow> int list" where
  "key_words bo key = map (native_u32 bo) (chunks 4 4 (be_bytes 16 key))"

definition hexlify :: "string \<Rightarrow> string" where
  "hexlify bs = concat (map (\<lambda>c. map hexdigit (digits_w 16 2 (of_char c))) bs)"

definition cbc_tea :: "byteorder \<Rightarrow> nat \<Rightarrow> string \<Rightarrow> string" where
  "cbc_tea bo key plain =
     hexlify (concat (map (native_bytes bo)
       (cbc_words (key_words bo key) (0, 0)
          (map (native_u32 bo) (chunks (length plain div 4) 4 plain)))))"

text \<open>
  The inverse transformation. The inverse of a round of TEA undoes the second half
  of the round, then the first, then the sum; decrypting a block runs it 32 times from
  the final sum \<open>32 * delta mod 2 ** 32\<close>. Decrypting the chain: each block of the
  ciphertext is decrypted and combined by XOR with the block of ciphertext before it,
  the first with a zero block. The ciphertext is the hexadecimal string that
  \<open>_crypt\<close> returns; its words are read back with \<open>int(s, 16)\<close> and \<open>ntohl\<close>, and
  the words of the plaintext are written in the byte order of the host.
\<close>

definition tea_unround :: "int list \<Rightarrow> int \<times> int \<times> int \<Rightarrow> int \<times> int \<times> int" where
  "tea_unround keys st =
     (case st of (sm, a, b) \<Rightarrow>
        let b' = (b - tea_mix a sm (keys ! 2) (keys ! 3)) AND 0xFFFFFFFF;
            a' = (a - tea_mix b' sm (keys ! 0) (keys ! 1)) AND 0xFFFFFFFF;
            sm' = (sm - delta) AND 0xFFFFFFFF
        in (sm', a', b'))"

definition tea_decrypt :: "int list \<Rightarrow> int \<times> int \<Rightarrow> int \<times> int" where
  "tea_decrypt keys block = snd ((tea_unround keys ^^ 32) (0xC6EF3720, fst block, snd block))"

fun cbc_decrypt :: "int list \<Rightarrow> int \<times> int \<Rightarrow> int list \<Rightarrow> int list" where
  "cbc_decrypt keys prev (c0 # c1 # cs) =
     (let p = tea_decrypt keys (c0, c1)
      in (fst p XOR fst prev) # (snd p XOR snd prev) # cbc_decrypt keys (c0, c1) cs)"
| "cbc_decrypt keys prev cs = []"

definition crypt_inverse :: "byteorder \<Rightarrow> nat \<Rightarrow> string \<Rightarrow> error + string" where
  "crypt_inverse host key crypted =
     bind (crypt_keys host key) (\<lambda>keys.
     bind (map_err (\<lambda>s. bind (int_base16 s) (\<lambda>v. ntohl host (int v)))
             (chunks (length crypted div 8) 8 crypted)) (\<lambda>cipher.
     Inr (concat (map (native_bytes host) (cbc_decrypt keys (0, 0) cipher)))))"

section \<open>Basic facts\<close>

declare crypt_loop.simps [simp del]
declare radix_digits.simps [simp del]
declare read_loop.simps [simp del]
declare write_loop.simps [simp del]

lemma bind_Inr [simp]: "bind (Inr x) f = f x"
  by (simp add: bind_def)

lemma bind_Inl [simp]: "bind (Inl e) f = Inl e"
  by (simp add: bind_def)

lemma bind_eq_Inr: "bind m f = Inr y \<longleftrightarrow> (\<exists>x. m = Inr x \<and> f x = Inr y)"
  by (cases m) simp_all

lemma bind_eq_Inl:
  "bind m f = Inl e \<longleftrightarrow> (m = Inl e \<or> (\<exists>x. m = Inr x \<and> f x = Inl e))"
  by (cases m) simp_all

lemma length_be_bytes [simp]: "length (be_bytes k v) = k"
  by (induction k arbitrary: v) simp_all

lemma struct_pack_be_length: "struct_pack_be k v = Inr bs \<Longrightarrow> length bs = k"
  by (auto simp: struct_pack_be_def split: if_splits)

lemma radix_small: "n < b \<Longrightarrow> radix_digits b n = [n]"
  by (simp add: radix_digits.simps)

section \<open>Reading from a stream that arrives in pieces\<close>

lemma drop_bytes_0 [simp]: "drop_bytes 0 ds = ds"
  by (cases ds) simp_all

lemma concat_drop_bytes: "concat (drop_bytes n ds) = drop n (concat ds)"
  by (induction ds arbitrary: n) auto

lemma drop_bytes_nonempty: "[] \<notin> set ds \<Longrightarrow> [] \<notin> set (drop_bytes n ds)"
  by (induction ds arbitrary: n) auto

lemma Nil_neq_length: "[] \<noteq> d \<longleftrightarrow> 0 < length d"
  by auto

lemma drop_bytes_all:
  "[] \<notin> set ds \<Longrightarrow> length (concat ds) \<le> n \<Longrightarrow> drop_bytes n ds = []"
proof (induction ds arbitrary: n)
  case Nil
  then show ?case by simp
next
  case (Cons d ds)
  from Cons.prems obtain x xs where d: "d = x # xs" by (cases d) auto
  with Cons.prems have "n \<noteq> 0" "length d \<le> n" "length (concat ds) \<le> n - length d"
    by auto
  with Cons.IH [of "n - length d"] Cons.prems show ?case by simp
qed

lemma chat_socket_id [simp]: "c\<lparr>socket := (socket c)\<lparr>incoming := incoming (socket c)\<rparr>\<rparr> = c"
  by simp

lemma read_loop_0 [simp]: "read_loop 0 acc c = (Inr acc, c)"
  by (simp add: read_loop.simps)

lemma read_loop_chunks:
  assumes "incoming (socket c) = map Data ds @ rest" "[] \<notin> set ds"
    "n \<le> length (concat ds)" "\<not> closed (socket c)"
  shows "read_loop n acc c =
    (Inr (acc @ take n (concat ds)),
     c\<lparr>socket := (socket c)\<lparr>incoming := map Data (drop_bytes n ds) @ rest\<rparr>\<rparr>)"
  using assms
proof (induction ds arbitrary: n acc c)
  case Nil
  then show ?case by simp
next
  case (Cons d ds)
  show ?case
  proof (cases "n = 0")
    case True
    with Cons.prems show ?thesis by simp
  next
    case n: False
    from Cons.prems have d: "d \<noteq> []" by auto
    show ?thesis
    proof (cases "length d \<le> n")
      case True
      let ?c = "c\<lparr>socket := (socket c)\<lparr>incoming := map Data ds @ rest\<rparr>\<rparr>"
      have r: "recv n (socket c) = (Inr d, (socket c)\<lparr>incoming := map Data ds @ rest\<rparr>)"
        using Cons.prems True by (simp add: recv_def)
      have "read_loop n acc c = read_loop (n - length d) (acc @ d) ?c"
        using n d r by (subst read_loop.simps) simp
      also have "\<dots> = (Inr ((acc @ d) @ take (n - length d) (concat ds)),
          ?c\<lparr>socket := (socket ?c)\<lparr>incoming := map Data (drop_bytes (n - length d) ds) @ rest\<rparr>\<rparr>)"
        using Cons.prems True by (intro Cons.IH) auto
      finally show ?thesis using True n by simp
    next
      case False
      have r: "recv n (socket c) = (Inr (take n d), (socket c)\<lparr>incoming := Data (drop n d) # map Data ds @ rest\<rparr>)"
        using Cons.prems False by (simp add: recv_def)
      have "read_loop n acc c = read_loop (n - length (take n d)) (acc @ take n d)
           (c\<lparr>socket := (socket c)\<lparr>incoming := Data (drop n d) # map Data ds @ rest\<rparr>\<rparr>)"
        using n d r by (subst read_loop.simps) simp
      then show ?thesis using False n by simp
    qed
  qed
qed

lemma read_loop_short:
  assumes "incoming (socket c) = map Data ds @ after" "[] \<notin> set ds"
    "length (concat ds) < n" "\<not> closed (socket c)"
  shows "read_loop n acc c =
    read_loop (n - length (concat ds)) (acc @ concat ds)
      (c\<lparr>socket := (socket c)\<lparr>incoming := after\<rparr>\<rparr>)"
  using assms
proof (induction ds arbitrary: n acc c)
  case Nil
  then have "after = incoming (socket c)" by simp
  then show ?case by simp
next
  case (Cons d ds)
  from Cons.prems obtain x xs where "d = x # xs" by (cases d) auto
  with Cons.prems have d: "d \<noteq> []" and le: "length d \<le> n" and n: "0 < n" by auto
  let ?c = "c\<lparr>socket := (socket c)\<lparr>incoming := map Data ds @ after\<rparr>\<rparr>"
  have r: "recv n (socket c) = (Inr d, (socket c)\<lparr>incoming := map Data ds @ after\<rparr>)"
    using Cons.prems le by (simp add: recv_def)
  have "read_loop n acc c = read_loop (n - length d) (acc @ d) ?c"
    using n d r by (subst read_loop.simps) simp
  also have "\<dots> = read_loop (n - length d - length (concat ds)) ((acc @ d) @ concat ds)
      (?c\<lparr>socket := (socket ?c)\<lparr>incoming := after\<rparr>\<rparr>)"
    using Cons.prems by (intro Cons.IH) auto
  finally show ?case by simp
qed

section \<open>The challenge plaintext\<close>

lemma pad_len: "(l + (8 - l mod 8) mod 8) mod 8 = (0::nat)"
proof (cases "l mod 8 = 0")
  case True
  then show ?thesis by simp
next
  case False
  have lt: "l mod 8 < 8" by simp
  with False have e: "(8 - l mod 8) mod 8 = 8 - l mod 8" by simp
  have "(l + (8 - l mod 8)) mod 8 = (l mod 8 + (8 - l mod 8)) mod 8"
    by (rule mod_add_left_eq [symmetric])
  also have "l mod 8 + (8 - l mod 8) = 8" using lt by linarith
  finally show ?thesis using e by simp
qed

lemma challenge_plain_Inr:
  assumes "challenge_plain nonce server_key username password = Inr plain"
  shows "\<exists>prefix len4. struct_pack_be 8 (unat nonce) = Inr prefix \<and>
      struct_pack_be 4 (length (username @ ''|'' @ server_key @ ''|'' @ password)) = Inr len4 \<and>
      plain = prefix @ len4 @ (username @ ''|'' @ server_key @ ''|'' @ password) @
         replicate ((8 - (8 + 4 + length (username @ ''|'' @ server_key @ ''|'' @ password)) mod 8) mod 8) CHR '' ''"
  using assms unfolding challenge_plain_def Let_def bind_eq_Inr
  by (elim exE conjE) (simp only: sum.inject, blast)

lemma challenge_plain_length:
  assumes "challenge_plain nonce server_key username password = Inr plain"
  shows "length plain mod 8 = 0"
proof -
  define ch where "ch = username @ ''|'' @ server_key @ ''|'' @ password"
  from challenge_plain_Inr [OF assms] obtain prefix len4 where
    p: "struct_pack_be 8 (unat nonce) = Inr prefix" and
    l: "struct_pack_be 4 (length ch) = Inr len4" and
    e: "plain = prefix @ len4 @ ch @ replicate ((8 - (8 + 4 + length ch) mod 8) mod 8) CHR '' ''"
    unfolding ch_def by blast
  have "length plain = (8 + 4 + length ch) + (8 - (8 + 4 + length ch) mod 8) mod 8"
    unfolding e using struct_pack_be_length [OF p] struct_pack_be_length [OF l]
    by (simp only: length_append length_replicate)
  then show ?thesis
    by (simp only: pad_len)
qed

lemma challenge_plain_error:
  assumes "challenge_plain nonce server_key username password = Inl e"
  shows "e = StructError"
proof -
  have a: "\<And>k v. struct_pack_be k v = Inl e \<Longrightarrow> e = StructError"
    by (simp add: struct_pack_be_def split: if_splits)
  from assms show ?thesis
    unfolding challenge_plain_def Let_def bind_eq_Inl
    by (elim disjE exE conjE) (erule a | simp only: sum.distinct)+
qed

lemma generate_login_key_Inl:
  "dh_key dhx = Inr k \<Longrightarrow> challenge_plain nonce server_key username password = Inr plain \<Longrightarrow>
   crypt host k plain = Inl e \<Longrightarrow>
   generate_login_key host dhx nonce server_key username password = Inl e"
  by (simp add: generate_login_key_def Let_def)

lemma generate_login_key_Inl_plain:
  "dh_key dhx = Inr k \<Longrightarrow> challenge_plain nonce server_key username password = Inl e \<Longrightarrow>
   generate_login_key host dhx nonce server_key username password = Inl e"
  by (simp add: generate_login_key_def Let_def)

section \<open>The errors of the key generator\<close>


lemma int_hex_acc_err:
  "int_hex_acc a s = Inl e \<Longrightarrow> e = ValueError ''invalid literal for int() with base 16''"
  by (induction s arbitrary: a) (auto split: option.splits)

lemma int_base16_err:
  "int_base16 s = Inl e \<Longrightarrow> e = ValueError ''invalid literal for int() with base 16''"
  by (auto simp: int_base16_def split: if_splits dest: int_hex_acc_err)

lemma ntohl_err: "ntohl h x = Inl e \<Longrightarrow> e = OverflowError"
  by (auto simp: ntohl_def split: if_splits)

lemma htonl_err: "htonl h x = Inl e \<Longrightarrow> e = OverflowError"
  by (auto simp: htonl_def split: if_splits)

lemma map_err_err:
  assumes "\<And>x e. f x = Inl e \<Longrightarrow> P e"
  shows "map_err f xs = Inl e \<Longrightarrow> P e"
  by (induction xs arbitrary: e) (auto simp: bind_eq_Inl assms)

lemma tea_loop_err: "tea_loop n s a b keys = Inl e \<Longrightarrow> e = IndexError"
  by (induction n arbitrary: s a b) (auto simp: bind_eq_Inl Let_def split: if_splits)

lemma tea_encrypt_err: "tea_encrypt c keys = Inl e \<Longrightarrow> e = IndexError"
  unfolding tea_encrypt_def by (rule tea_loop_err)

lemma crypt_block_hex_err: "crypt_block_hex h r = Inl e \<Longrightarrow> e = OverflowError"
  by (auto simp: crypt_block_hex_def bind_eq_Inl dest: htonl_err)

lemma crypt_loop_err:
  "crypt_loop host keys data i result crypted = Inl e \<Longrightarrow> e = IndexError \<or> e = OverflowError"
proof (induction host keys data i result crypted rule: crypt_loop.induct)
  case (1 host keys data i result crypted)
  from "1.prems" show ?case
    apply (subst (asm) crypt_loop.simps)
    apply (auto simp: bind_eq_Inl Let_def split: if_splits dest: tea_encrypt_err crypt_block_hex_err)
    using "1.IH" apply (auto simp: Let_def)
    done
qed

lemma crypt_keys_err:
  "crypt_keys host key = Inl e \<Longrightarrow>
     e = StructError \<or> e = OverflowError \<or> e = ValueError ''invalid literal for int() with base 16''"
  unfolding crypt_keys_def bind_eq_Inl
  apply (elim disjE exE conjE)
   apply (simp add: struct_unpack_8s_def split: if_splits)
  apply (erule map_err_err [rotated])
  apply (auto simp: bind_eq_Inl dest: int_base16_err ntohl_err)
  done

lemma crypt_err:
  "crypt host key plain = Inl e \<Longrightarrow> length plain mod 8 = 0 \<Longrightarrow>
   e \<noteq> ValueError ''Length of plain text must be multiple of 8.''"
  unfolding crypt_def
  by (auto simp: bind_eq_Inl struct_unpack_I_def split: if_splits dest!: crypt_keys_err crypt_loop_err)

lemma dh_key_err:
  "dh_key dhx = Inl e \<Longrightarrow> e = ValueError ''invalid literal for int() with base 16''"
  unfolding dh_key_def by (rule int_base16_err)

lemma challenge_plain_total:
  assumes "length (username @ ''|'' @ server_key @ ''|'' @ password) < 2 ^ 32"
  shows "\<exists>plain. challenge_plain nonce server_key username password = Inr plain"
proof -
  have "unat nonce < 2 ^ 64"
    using unsigned_less [of nonce] by simp
  then have "struct_pack_be 8 (unat nonce) = Inr (be_bytes 8 (unat nonce))"
    by (simp add: struct_pack_be_def)
  moreover have "struct_pack_be 4 (length (username @ ''|'' @ server_key @ ''|'' @ password))
      = Inr (be_bytes 4 (length (username @ ''|'' @ server_key @ ''|'' @ password)))"
    using assms by (simp add: struct_pack_be_def)
  ultimately show ?thesis
    unfolding challenge_plain_def Let_def by simp
qed

lemma generate_login_key_length_error:
  "generate_login_key host dhx nonce server_key username password
     \<noteq> Inl (ValueError ''Length of plain text must be multiple of 8.'')"
proof
  assume a: "generate_login_key host dhx nonce server_key username password
     = Inl (ValueError ''Length of plain text must be multiple of 8.'')"
  then consider
      "dh_key dhx = Inl (ValueError ''Length of plain text must be multiple of 8.'')"
    | "challenge_plain nonce server_key username password
         = Inl (ValueError ''Length of plain text must be multiple of 8.'')"
    | k plain where "challenge_plain nonce server_key username password = Inr plain"
        "crypt host k plain = Inl (ValueError ''Length of plain text must be multiple of 8.'')"
    unfolding generate_login_key_def Let_def bind_eq_Inl by auto
  then show False
  proof cases
    case 1
    from dh_key_err [OF 1] show False by simp
  next
    case 2
    from challenge_plain_error [OF 2] show False by simp
  next
    case 3
    from crypt_err [OF 3(2) challenge_plain_length [OF 3(1)]] show False by simp
  qed
qed

text \<open>
  Claim C3. Whenever \<open>generate_login_key\<close> assembles the challenge plaintext
  (it does so whenever the challenge string is shorter than \<open>2 ** 32\<close>, the range
  of the length field), the plaintext has a length that is a multiple of 8, so
  \<open>_crypt\<close> does not raise its plaintext-length error on it, with any key; and
  \<open>generate_login_key\<close> never fails with that error, for every host, private
  exponent, nonce, server key, user name and password.
\<close>

theorem challenge_plain_block_aligned:
  "(length (username @ ''|'' @ server_key @ ''|'' @ password) < 2 ^ 32 \<longrightarrow>
      (\<exists>plain. challenge_plain nonce server_key username password = Inr plain)) \<and>
   (\<forall>plain. challenge_plain nonce server_key username password = Inr plain \<longrightarrow>
      length plain mod 8 = 0 \<and>
      (\<forall>key. crypt host key plain
         \<noteq> Inl (ValueError ''Length of plain text must be multiple of 8.''))) \<and>
   generate_login_key host dhx nonce server_key username password
     \<noteq> Inl (ValueError ''Length of plain text must be multiple of 8.'')"
proof (intro conjI impI allI)
  assume "length (username @ ''|'' @ server_key @ ''|'' @ password) < 2 ^ 32"
  then show "\<exists>plain. challenge_plain nonce server_key username password = Inr plain"
    by (rule challenge_plain_total)
next
  fix plain
  assume "challenge_plain nonce server_key username password = Inr plain"
  then show "length plain mod 8 = 0"
    by (rule challenge_plain_length)
next
  fix plain key
  assume "challenge_plain nonce server_key username password = Inr plain"
  then have al: "length plain mod 8 = 0"
    by (rule challenge_plain_length)
  show "crypt host key plain
      \<noteq> Inl (ValueError ''Length of plain text must be multiple of 8.'')"
  proof
    assume "crypt host key plain
      = Inl (ValueError ''Length of plain text must be multiple of 8.'')"
    from crypt_err [OF this al] show False by simp
  qed
next
  show "generate_login_key host dhx nonce server_key username password
     \<noteq> Inl (ValueError ''Length of plain text must be multiple of 8.'')"
    by (rule generate_login_key_length_error)
qed

theorem challenge_plain_block_aligned_witness:
  "length (''user'' @ ''|'' @ ''seed'' @ ''|'' @ ''secret'') < (2::nat) ^ 32 \<and>
   (\<exists>plain. challenge_plain 7 ''seed'' ''user'' ''secret'' = Inr plain \<and>
      length plain mod 8 = 0 \<and>
      crypt LittleEndian 1 plain \<noteq> Inl (ValueError ''Length of plain text must be multiple of 8.''))"
proof -
  have h: "length (''user'' @ ''|'' @ ''seed'' @ ''|'' @ ''secret'') < (2::nat) ^ 32"
    by simp
  note t = challenge_plain_block_aligned [of "''user''" "''seed''" "''secret''" 7 LittleEndian 0]
  from t [THEN conjunct1, rule_format, OF h]
  obtain plain where p: "challenge_plain 7 ''seed'' ''user'' ''secret'' = Inr plain" ..
  from t [THEN conjunct2, THEN conjunct1, rule_format, OF p]
  have "length plain mod 8 = 0"
    and "crypt LittleEndian 1 plain \<noteq> Inl (ValueError ''Length of plain text must be multiple of 8.'')"
    by (rule conjunct1, rule conjunct2 [THEN spec])
  with h p show ?thesis by (intro conjI exI [of _ plain])
qed

section \<open>A private exponent of zero\<close>

lemma shared_secret_0: "shared_secret 0 = 1"
  by (simp add: shared_secret_def dhN_def)

lemma fmt_x_1: "fmt_x 1 = ''1''"
  by (simp add: fmt_x_def radix_small hexdigit_def)

lemma dh_key_0: "dh_key 0 = Inr 1"
  unfolding dh_key_def shared_secret_0 fmt_x_1
  by (simp add: int_base16_def hexval_def)

lemma crypt_keys_1: "crypt_keys host 1 = Inl StructError"
  unfolding crypt_keys_def fmt_x_1
  by (simp add: str_int_def radix_small struct_unpack_8s_def)

lemma crypt_1: "length plain mod 8 = 0 \<Longrightarrow> crypt host 1 plain = Inl StructError"
  unfolding crypt_def crypt_keys_1 by simp

text \<open>
  Claim C10. The private exponent 0 lies in the sampled range. With it the shared
  secret is 1, whose hexadecimal representation has one digit, fewer than 32; the key
  is then 1, the unpacking of the key words in \<open>_crypt\<close> asks \<open>struct.unpack\<close>
  for zero pieces of a one-character string, and \<open>generate_login_key\<close> raises
  \<open>struct.error\<close> instead of returning a login key, whatever the host, the nonce,
  the server key, the user name and the password are.
\<close>

theorem generate_login_key_zero_exponent:
  "unat (0 :: 256 word) < 2 ^ 256 \<and> shared_secret 0 = 1 \<and>
   length (fmt_x (shared_secret 0)) < 32 \<and>
   generate_login_key host 0 nonce server_key username password = Inl StructError"
proof -
  have "generate_login_key host 0 nonce server_key username password = Inl StructError"
  proof (cases "challenge_plain nonce server_key username password")
    case (Inl e)
    then show ?thesis
      using challenge_plain_error [OF Inl] generate_login_key_Inl_plain [OF dh_key_0]
      by simp
  next
    case (Inr plain)
    then show ?thesis
      using generate_login_key_Inl [OF dh_key_0 Inr crypt_1 [OF challenge_plain_length [OF Inr]]]
      by simp
  qed
  then show ?thesis
    unfolding shared_secret_0 fmt_x_1 by simp
qed

section \<open>The transport read loop\<close>

lemma read_socket_chunks:
  assumes "incoming (socket c) = map Data ds @ rest" "[] \<notin> set ds"
    "n \<le> length (concat ds)" "\<not> closed (socket c)"
  shows "read_socket n c =
    (Inr (take n (concat ds)),
     c\<lparr>socket := (socket c)\<lparr>incoming := map Data (drop_bytes n ds) @ rest\<rparr>\<rparr>)"
  unfolding read_socket_def using read_loop_chunks [OF assms, of "[]"] by simp

lemma read_socket_short:
  assumes "incoming (socket c) = map Data ds @ after" "[] \<notin> set ds"
    "length (concat ds) < n" "\<not> closed (socket c)"
  shows "read_socket n c =
    read_loop (n - length (concat ds)) (concat ds)
      (c\<lparr>socket := (socket c)\<lparr>incoming := after\<rparr>\<rparr>)"
  unfolding read_socket_def using read_loop_short [OF assms, of "[]"] by simp

lemma read_loop_eof:
  assumes "0 < n" "\<not> closed (socket c)" "incoming (socket c) = [] \<or> (\<exists>r. incoming (socket c) = Data [] # r)"
  shows "fst (read_loop n acc c) = Inl (ChatError ''Connection broken.'')"
  using assms by (subst read_loop.simps) (auto simp: recv_def)

lemma read_loop_timeout:
  assumes "0 < n" "\<not> closed (socket c)" "incoming (socket c) = RecvRaises SocketTimeout # r"
  shows "fst (read_loop n acc c) = Inl TypeError"
  using assms by (subst read_loop.simps) (simp add: recv_def socket_failure_def)



text \<open>
  Claim C4. On an open connection whose stream delivers the pieces \<open>ds\<close> (none of
  them empty), \<open>__read_socket(n)\<close> with \<open>n\<close> not beyond the delivered bytes
  returns exactly the first \<open>n\<close> bytes of the stream, the same for any other way
  \<open>ds'\<close> of cutting the same bytes into pieces, and leaves the remaining bytes on
  the stream. When the stream ends (a zero-length read) before \<open>n\<close> bytes have
  arrived, the read fails with \<open>ChatError("Connection broken.")\<close>.
\<close>

theorem read_socket_chunk_invariant:
  assumes "[] \<notin> set ds" and "[] \<notin> set ds'" and "concat ds' = concat ds"
    and "\<not> closed (socket c)" and "\<not> closed (socket c')"
    and "incoming (socket c) = map Data ds @ rest"
    and "incoming (socket c') = map Data ds' @ rest'"
  shows "(n \<le> length (concat ds) \<longrightarrow>
            fst (read_socket n c) = Inr (take n (concat ds)) \<and>
            fst (read_socket n c') = fst (read_socket n c) \<and>
            length (take n (concat ds)) = n \<and>
            incoming (socket (snd (read_socket n c))) = map Data (drop_bytes n ds) @ rest \<and>
            concat (drop_bytes n ds) = drop n (concat ds)) \<and>
         (length (concat ds) < n \<and> (rest = [] \<or> (\<exists>r. rest = Data [] # r)) \<longrightarrow>
            fst (read_socket n c) = Inl (ChatError ''Connection broken.''))"
proof (intro conjI impI)
  assume n: "n \<le> length (concat ds)"
  note r = read_socket_chunks [OF assms(6) assms(1) n assms(4)]
  from n have n': "n \<le> length (concat ds')" using assms(3) by simp
  note r' = read_socket_chunks [OF assms(7) assms(2) n' assms(5)]
  show "fst (read_socket n c) = Inr (take n (concat ds))"
    by (simp add: r)
  show "fst (read_socket n c') = fst (read_socket n c)"
    by (simp add: r r' assms(3))
  show "length (take n (concat ds)) = n"
    using n by simp
  show "incoming (socket (snd (read_socket n c))) = map Data (drop_bytes n ds) @ rest"
    by (simp add: r)
  show "concat (drop_bytes n ds) = drop n (concat ds)"
    by (rule concat_drop_bytes)
next
  assume a: "length (concat ds) < n \<and> (rest = [] \<or> (\<exists>r. rest = Data [] # r))"
  then have lt: "length (concat ds) < n" and r: "rest = [] \<or> (\<exists>r. rest = Data [] # r)"
    by simp_all
  have "fst (read_loop (n - length (concat ds)) (concat ds)
      (c\<lparr>socket := (socket c)\<lparr>incoming := rest\<rparr>\<rparr>)) = Inl (ChatError ''Connection broken.'')"
    using lt r assms(4) by (intro read_loop_eof) simp_all
  then show "fst (read_socket n c) = Inl (ChatError ''Connection broken.'')"
    by (simp only: read_socket_short [OF assms(6) assms(1) lt assms(4)])
qed

section \<open>A timeout while reading\<close>

lemma read_socket_timeout_general:
  assumes "incoming (socket c) = map Data ds @ RecvRaises SocketTimeout # rest"
    and "[] \<notin> set ds" and "length (concat ds) < n" and "\<not> closed (socket c)"
  shows "fst (read_socket n c) = Inl TypeError"
proof -
  have "fst (read_loop (n - length (concat ds)) (concat ds)
      (c\<lparr>socket := (socket c)\<lparr>incoming := RecvRaises SocketTimeout # rest\<rparr>\<rparr>)) = Inl TypeError"
    using assms(3,4) by (intro read_loop_timeout [of _ _ rest]) simp_all
  then show ?thesis
    by (simp only: read_socket_short [OF assms])
qed

text \<open>
  Claim C8. A \<open>recv\<close> that raises \<open>socket.timeout\<close> is caught by the first
  \<open>except\<close> clause, the one for \<open>socket.error\<close>, whose message formatting fails
  on the single argument of the timeout: the read ends in a \<open>TypeError\<close>, not in
  \<open>ChatError("Connection timed out.")\<close>. Here on a read of four bytes whose
  first \<open>recv\<close> times out.
\<close>

theorem read_socket_timeout:
  "fst (read_socket 4
     \<lparr>socket = \<lparr>incoming = [RecvRaises SocketTimeout], outgoing = [], sent = [], closed = False\<rparr>,
      character = None, characters = [], stdout = []\<rparr>) = Inl TypeError"
  by (rule read_socket_timeout_general [of _ "[]" "[]"]) simp_all


theorem read_socket_chunk_invariant_witness:
  "fst (read_socket 4
     \<lparr>socket = \<lparr>incoming = [Data ''ab'', Data ''cde''], outgoing = [], sent = [], closed = False\<rparr>,
      character = None, characters = [], stdout = []\<rparr>) = Inr ''abcd'' \<and>
   fst (read_socket 4
     \<lparr>socket = \<lparr>incoming = [Data ''a'', Data ''b'', Data ''c'', Data ''d'', Data ''e''],
        outgoing = [], sent = [], closed = False\<rparr>,
      character = None, characters = [], stdout = []\<rparr>) = Inr ''abcd'' \<and>
   fst (read_socket 6
     \<lparr>socket = \<lparr>incoming = [Data ''ab'', Data ''cde''], outgoing = [], sent = [], closed = False\<rparr>,
      character = None, characters = [], stdout = []\<rparr>) = Inl (ChatError ''Connection broken.'')"
proof -
  let ?c = "\<lparr>socket = \<lparr>incoming = [Data ''ab'', Data ''cde''], outgoing = [], sent = [], closed = False\<rparr>,
      character = None, characters = [], stdout = []\<rparr>"
  let ?c' = "\<lparr>socket = \<lparr>incoming = [Data ''a'', Data ''b'', Data ''c'', Data ''d'', Data ''e''],
        outgoing = [], sent = [], closed = False\<rparr>,
      character = None, characters = [], stdout = []\<rparr>"
  have h: "[] \<notin> set [''ab'', ''cde'']" "[] \<notin> set [''a'', ''b'', ''c'', ''d'', ''e'']"
    "concat [''a'', ''b'', ''c'', ''d'', ''e''] = concat [''ab'', ''cde'']"
    "\<not> closed (socket ?c)" "\<not> closed (socket ?c')"
    "incoming (socket ?c) = map Data [''ab'', ''cde''] @ []"
    "incoming (socket ?c') = map Data [''a'', ''b'', ''c'', ''d'', ''e''] @ []"
    by simp_all
  from read_socket_chunk_invariant [OF h, of 4] read_socket_chunk_invariant [OF h, of 6]
  show ?thesis by simp
qed

section \<open>Frames on the wire\<close>

lemma of_char_char_of_mod: "of_char (char_of (v mod 256 :: nat)) = (v mod 256 :: nat)"
  by (simp add: of_char_of)

lemma be_value_append: "be_value (bs @ [c]) = 256 * be_value bs + of_char c"
  by (simp add: be_value_def)

lemma be_value_be_bytes: "be_value (be_bytes k v) = v mod 256 ^ k"
proof (induction k arbitrary: v)
  case 0
  then show ?case by (simp add: be_value_def)
next
  case (Suc k)
  have "be_value (be_bytes (Suc k) v) = 256 * ((v div 256) mod 256 ^ k) + v mod 256"
    by (simp add: be_value_append Suc of_char_char_of_mod)
  also have "\<dots> = v mod 256 ^ Suc k"
    by (simp add: mod_mult2_eq)
  finally show ?case .
qed

lemma struct_unpack_2H_header:
  assumes "t < 65536" "n < 65536"
  shows "struct_unpack_2H (be_bytes 2 t @ be_bytes 2 n) = Inr (t, n)"
  using assms be_value_be_bytes [of 2 t] be_value_be_bytes [of 2 n]
  by (simp add: struct_unpack_2H_def)


lemma read_frame:
  assumes "incoming (socket c) = map Data ds @ rest" and "[] \<notin> set ds"
    and "concat ds = frame t data" and "\<not> closed (socket c)"
  shows "read_socket 4 c =
      (Inr (be_bytes 2 t @ be_bytes 2 (length data)),
       c\<lparr>socket := (socket c)\<lparr>incoming := map Data (drop_bytes 4 ds) @ rest\<rparr>\<rparr>)"
    and "read_socket (length data)
         (c\<lparr>socket := (socket c)\<lparr>incoming := map Data (drop_bytes 4 ds) @ rest\<rparr>\<rparr>) =
      (Inr data, c\<lparr>socket := (socket c)\<lparr>incoming := rest\<rparr>\<rparr>)"
proof -
  have len: "4 \<le> length (concat ds)"
    by (simp add: assms(3) frame_def)
  have tk: "take 4 (concat ds) = be_bytes 2 t @ be_bytes 2 (length data)"
    by (simp add: assms(3) frame_def)
  show "read_socket 4 c =
      (Inr (be_bytes 2 t @ be_bytes 2 (length data)),
       c\<lparr>socket := (socket c)\<lparr>incoming := map Data (drop_bytes 4 ds) @ rest\<rparr>\<rparr>)"
    using read_socket_chunks [OF assms(1) assms(2) len assms(4)] tk by simp
  let ?c1 = "c\<lparr>socket := (socket c)\<lparr>incoming := map Data (drop_bytes 4 ds) @ rest\<rparr>\<rparr>"
  have i: "incoming (socket ?c1) = map Data (drop_bytes 4 ds) @ rest" by simp
  have ne: "[] \<notin> set (drop_bytes 4 ds)"
    using assms(2) by (rule drop_bytes_nonempty)
  have cc: "concat (drop_bytes 4 ds) = data"
    by (simp add: concat_drop_bytes assms(3) frame_def)
  have le: "length data \<le> length (concat (drop_bytes 4 ds))"
    by (simp add: cc)
  have cl: "\<not> closed (socket ?c1)" using assms(4) by simp
  have all: "drop_bytes (length data) (drop_bytes 4 ds) = []"
    using ne by (rule drop_bytes_all) (simp add: cc)
  show "read_socket (length data) ?c1 =
      (Inr data, c\<lparr>socket := (socket c)\<lparr>incoming := rest\<rparr>\<rparr>)"
    using read_socket_chunks [OF i ne le cl] by (simp add: cc all)
qed

lemma wait_packet_frame:
  assumes "incoming (socket c) = map Data ds @ rest" and "[] \<notin> set ds"
    and "concat ds = frame t data" and "t < 65536" and "length data < 65536"
    and "\<not> closed (socket c)"
  shows "wait_packet P Expect Error c =
     (case Expect of
        Some expect \<Rightarrow>
          if t \<noteq> expect then
            (case Error of
               Some err \<Rightarrow>
                 if t = err
                 then (Inl (UnexpectedPacket t (PacketObj err data)),
                       c\<lparr>socket := (socket c)\<lparr>incoming := rest\<rparr>\<rparr>)
                 else (Inl (ChatError ''Unexpected error.''),
                       c\<lparr>socket := (socket c)\<lparr>incoming := rest\<rparr>\<rparr>)
             | None \<Rightarrow> (Inl (ChatError ''Unexpected error.''),
                       c\<lparr>socket := (socket c)\<lparr>incoming := rest\<rparr>\<rparr>))
          else (Inr (PacketObj expect data),
                print (Got_packet (PacketObj expect data))
                  (c\<lparr>socket := (socket c)\<lparr>incoming := rest\<rparr>\<rparr>))
      | None \<Rightarrow>
          (case SERVER_PACKETS P t of
             None \<Rightarrow> (Inl (UnexpectedPacket t (RawData data)),
                       c\<lparr>socket := (socket c)\<lparr>incoming := rest\<rparr>\<rparr>)
           | Some cls \<Rightarrow>
               (Inr (PacketObj cls data),
                print (Got_packet (PacketObj cls data))
                  (c\<lparr>socket := (socket c)\<lparr>incoming := rest\<rparr>\<rparr>))))"
  unfolding wait_packet_def
  by (simp only: read_frame [OF assms(1,2,3,6)] struct_unpack_2H_header [OF assms(4,5)]
      prod.case sum.case)


section \<open>No operation of the session closes the socket\<close>

lemma recv_closed: "closed (snd (recv k s)) = closed s"
  by (simp add: recv_def split: list.splits recv_event.splits)

lemma send_closed: "closed (snd (send d s)) = closed s"
  by (simp add: send_def split: list.splits send_event.splits)

lemma read_loop_closed: "closed (socket (snd (read_loop n acc c))) = closed (socket c)"
proof (induction n acc c rule: read_loop.induct)
  case (1 bytes data c)
  show ?case
  proof (cases "bytes > 0")
    case False
    then show ?thesis by (subst read_loop.simps) simp
  next
    case True
    obtain r s where r: "recv bytes (socket c) = (r, s)" by (cases "recv bytes (socket c)")
    have cl: "closed s = closed (socket c)"
      using recv_closed [of bytes "socket c"] r by simp
    show ?thesis
    proof (cases r)
      case (Inl x)
      with True r cl show ?thesis by (subst read_loop.simps) simp
    next
      case (Inr chunk)
      show ?thesis
      proof (cases "chunk = []")
        case True
        with \<open>bytes > 0\<close> r cl Inr show ?thesis by (subst read_loop.simps) simp
      next
        case False
        from "1.IH" [OF \<open>bytes > 0\<close> r [symmetric] Inr False]
        have "closed (socket (snd (read_loop (bytes - length chunk) (data @ chunk) (c\<lparr>socket := s\<rparr>))))
            = closed s" by simp
        with \<open>bytes > 0\<close> r cl Inr False show ?thesis by (subst read_loop.simps) simp
      qed
    qed
  qed
qed


lemma read_socket_closedD:
  "read_socket n c = (r, c') \<Longrightarrow> closed (socket c') = closed (socket c)"
  using read_loop_closed [of n "[]" c] by (simp add: read_socket_def)

lemma write_loop_closed: "closed (socket (snd (write_loop data bytes c))) = closed (socket c)"
proof (induction data bytes c rule: write_loop.induct)
  case (1 data bytes c)
  show ?case
  proof (cases "bytes > 0")
    case False
    then show ?thesis by (subst write_loop.simps) simp
  next
    case True
    obtain r s where r: "send data (socket c) = (r, s)" by (cases "send data (socket c)")
    have cl: "closed s = closed (socket c)"
      using send_closed [of data "socket c"] r by simp
    show ?thesis
    proof (cases r)
      case (Inl x)
      with True r cl show ?thesis by (subst write_loop.simps) simp
    next
      case (Inr n)
      show ?thesis
      proof (cases "n = 0")
        case True
        with \<open>bytes > 0\<close> r cl Inr show ?thesis by (subst write_loop.simps) simp
      next
        case False
        from "1.IH" [OF \<open>bytes > 0\<close> r [symmetric] Inr False]
        have "closed (socket (snd (write_loop (drop n data) (bytes - n) (c\<lparr>socket := s\<rparr>))))
            = closed s" by simp
        with \<open>bytes > 0\<close> r cl Inr False show ?thesis by (subst write_loop.simps) simp
      qed
    qed
  qed
qed

lemma write_socket_closedD:
  "write_socket data c = (r, c') \<Longrightarrow> closed (socket c') = closed (socket c)"
  using write_loop_closed [of data "length data" c] by (simp add: write_socket_def)

lemma print_socket [simp]: "socket (print out c) = socket c"
  by (simp add: print_def)

lemma wait_packet_closedD:
  "wait_packet P Expect Error c = (r, c') \<Longrightarrow> closed (socket c') = closed (socket c)"
  unfolding wait_packet_def
  by (auto split: prod.splits sum.splits option.splits if_splits dest!: read_socket_closedD)

lemma send_packet_closedD:
  "send_packet P packet Expect Error c = (r, c') \<Longrightarrow> closed (socket c') = closed (socket c)"
  unfolding send_packet_def
  by (auto split: prod.splits sum.splits option.splits if_splits
      dest!: write_socket_closedD wait_packet_closedD)

lemma ping_closedD:
  "ping P c = (r, c') \<Longrightarrow> closed (socket c') = closed (socket c)"
  unfolding ping_def
  by (auto split: prod.splits sum.splits dest!: send_packet_closedD)

lemma login_closedD:
  "login P character_id c = (r, c') \<Longrightarrow> closed (socket c') = closed (socket c)"
  unfolding login_def
  by (auto split: prod.splits sum.splits option.splits error.splits dest!: send_packet_closedD)


lemma handshake_closedD:
  "handshake host dhx nonce P username password c = (r, c') \<Longrightarrow>
   closed (socket c') = closed (socket c)"
  unfolding handshake_def
  by (auto split: prod.splits sum.splits option.splits error.splits
      dest!: send_packet_closedD wait_packet_closedD)

lemma chat_init_closedD:
  "chat_init host dhx nonce P username password (Inr s) = (r, Some c') \<Longrightarrow>
   closed (socket c') = closed s"
  unfolding chat_init_def
  by (auto split: prod.splits dest!: handshake_closedD)

lemma handle_events_closed:
  assumes "\<And>t h c p. events t = Some h \<Longrightarrow> closed (socket (snd (h c p))) = closed (socket c)"
  shows "closed (socket (snd (handle_events P events io_events c))) = closed (socket c)"
proof (induction io_events arbitrary: c)
  case Nil
  then show ?case by simp
next
  case (Cons ev rest)
  obtain fd io_event where ev: "ev = (fd, io_event)" by (cases ev)
  show ?case
  proof (cases "io_event = POLLIN")
    case False
    then show ?thesis
      using Cons.IH by (simp add: ev)
  next
    case True
    obtain r c1 where w: "wait_packet P None None c = (r, c1)"
      by (cases "wait_packet P None None c")
    note c1 = wait_packet_closedD [OF w]
    show ?thesis
    proof (cases r)
      case (Inl e)
      then show ?thesis
        using True w c1 Cons.IH [of "print (Unexpected_packet _ _) c1"]
        by (cases e) (simp_all add: ev)
    next
      case (Inr packet)
      show ?thesis
      proof (cases "ptype packet")
        case (Inl e)
        then show ?thesis using True w c1 Inr by (simp add: ev)
      next
        case t: (Inr t)
        show ?thesis
        proof (cases "events t")
          case None
          then show ?thesis using True w c1 Inr t Cons.IH [of c1] by (simp add: ev)
        next
          case (Some h)
          obtain r2 c2 where h: "h c1 packet = (r2, c2)" by (cases "h c1 packet")
          have c2: "closed (socket c2) = closed (socket c1)"
            using assms [OF Some, of c1 packet] h by simp
          show ?thesis
            using True w c1 Inr t Some h c2 Cons.IH [of c2]
            by (cases r2) (simp_all add: ev)
        qed
      qed
    qed
  qed
qed

lemma start_loop_closed:
  assumes "\<And>t h c p. events t = Some h \<Longrightarrow> closed (socket (snd (h c p))) = closed (socket c)"
  shows "closed (socket (snd (start_loop P events polls c))) = closed (socket c)"
proof (induction polls arbitrary: c)
  case Nil
  then show ?case by simp
next
  case (Cons p polls)
  show ?case
  proof (cases p)
    case Interrupted
    then show ?thesis by simp
  next
    case (Ready io_events)
    obtain r c1 where h: "handle_events P events io_events c = (r, c1)"
      by (cases "handle_events P events io_events c")
    have c1: "closed (socket c1) = closed (socket c)"
      using handle_events_closed [of events P io_events c] assms h by simp
    obtain r2 c2 where p: "ping P c1 = (r2, c2)" by (cases "ping P c1")
    note c2 = ping_closedD [OF p]
    show ?thesis
    proof (cases r)
      case (Inl e)
      then show ?thesis using Ready h c1 by (cases e) simp_all
    next
      case (Inr f)
      show ?thesis
      proof (cases f)
        case Return
        then show ?thesis using Ready h c1 Inr by simp
      next
        case Next
        show ?thesis
        proof (cases "io_events = []")
          case False
          then show ?thesis using Ready h c1 Inr Next Cons.IH [of c1] by simp
        next
          case True
          show ?thesis
          proof (cases r2)
            case (Inl e)
            then show ?thesis using Ready h c1 Inr Next True p c2 by (cases e) simp_all
          next
            case r2: (Inr u)
            then show ?thesis using Ready h c1 Inr Next True p c2 Cons.IH [of c2] by simp
          qed
        qed
      qed
    qed
  qed
qed

section \<open>Writing a packet\<close>

lemma send_InrD:
  assumes "send data s = (Inr n, s')"
  shows "n \<le> length data \<and> s' = s\<lparr>outgoing := outgoing s', sent := sent s @ take n data\<rparr>"
  using assms
  by (auto simp: send_def split: if_splits list.splits send_event.splits)

lemma write_loop_result:
  "write_loop data bytes c = (Inr u, c1) \<Longrightarrow> bytes = length data \<Longrightarrow>
   c1 = c\<lparr>socket := (socket c)\<lparr>outgoing := outgoing (socket c1), sent := sent (socket c) @ data\<rparr>\<rparr>"
proof (induction data bytes c rule: write_loop.induct)
  case (1 data bytes c)
  show ?case
  proof (cases "bytes > 0")
    case False
    with "1.prems" have "c1 = c" "data = []"
      by (simp_all add: write_loop.simps)
    then show ?thesis by simp
  next
    case True
    obtain r s where r: "send data (socket c) = (r, s)" by (cases "send data (socket c)")
    show ?thesis
    proof (cases r)
      case (Inl x)
      with True r "1.prems" show ?thesis by (simp add: write_loop.simps)
    next
      case (Inr n)
      show ?thesis
      proof (cases "n = 0")
        case n0: True
        with True r Inr "1.prems" show ?thesis by (simp add: write_loop.simps)
      next
        case False
        from send_InrD [OF r [unfolded Inr]]
        have le: "n \<le> length data"
          and s: "s = (socket c)\<lparr>outgoing := outgoing s, sent := sent (socket c) @ take n data\<rparr>"
          by simp_all
        have w: "write_loop (drop n data) (bytes - n) (c\<lparr>socket := s\<rparr>) = (Inr u, c1)"
          using "1.prems"(1) True r Inr False by (subst (asm) write_loop.simps) simp
        have "c1 = (c\<lparr>socket := s\<rparr>)\<lparr>socket := (socket (c\<lparr>socket := s\<rparr>))
            \<lparr>outgoing := outgoing (socket c1),
             sent := sent (socket (c\<lparr>socket := s\<rparr>)) @ drop n data\<rparr>\<rparr>"
          using "1.IH" [OF True r [symmetric] Inr False w] "1.prems"(2) by simp
        then have "c1 = c\<lparr>socket := s\<lparr>outgoing := outgoing (socket c1),
             sent := sent s @ drop n data\<rparr>\<rparr>"
          by simp
        also have "sent s = sent (socket c) @ take n data"
          by (subst s) simp
        finally have "c1 = c\<lparr>socket := s\<lparr>outgoing := outgoing (socket c1),
             sent := sent (socket c) @ data\<rparr>\<rparr>"
          by simp
        then show ?thesis
          by (subst (asm) s) simp
      qed
    qed
  qed
qed

lemma write_socket_result:
  "write_socket data c = (Inr u, c1) \<Longrightarrow>
   c1 = c\<lparr>socket := (socket c)\<lparr>outgoing := outgoing (socket c1), sent := sent (socket c) @ data\<rparr>\<rparr>"
  unfolding write_socket_def by (rule write_loop_result) simp_all


lemma write_socket_incoming:
  assumes "write_socket data c = (Inr u, c1)"
  shows "incoming (socket c1) = incoming (socket c)" and "closed (socket c1) = closed (socket c)"
    and "sent (socket c1) = sent (socket c) @ data"
    and "character c1 = character c" and "characters c1 = characters c"
    and "stdout c1 = stdout c"
  by (subst write_socket_result [OF assms], simp)+

lemma send_packet_reply:
  assumes w: "write_socket (pack P packet) c = (Inr (), c1)"
    and i: "incoming (socket c) = map Data ds @ rest" and ne: "[] \<notin> set ds"
    and f: "concat ds = frame t data" and t: "t < 65536" and l: "length data < 65536"
    and cl: "\<not> closed (socket c)"
  shows "send_packet P packet (Some expect) Error c =
     (if t \<noteq> expect then
        (case Error of
           Some err \<Rightarrow>
             if t = err
             then (Inl (UnexpectedPacket t (PacketObj err data)),
                   (print (Sent_packet packet) c1)\<lparr>socket := (socket c1)\<lparr>incoming := rest\<rparr>\<rparr>)
             else (Inl (ChatError ''Unexpected error.''),
                   (print (Sent_packet packet) c1)\<lparr>socket := (socket c1)\<lparr>incoming := rest\<rparr>\<rparr>)
         | None \<Rightarrow> (Inl (ChatError ''Unexpected error.''),
                   (print (Sent_packet packet) c1)\<lparr>socket := (socket c1)\<lparr>incoming := rest\<rparr>\<rparr>))
      else (Inr (Some (PacketObj expect data)),
            print (Got_packet (PacketObj expect data))
              ((print (Sent_packet packet) c1)\<lparr>socket := (socket c1)\<lparr>incoming := rest\<rparr>\<rparr>)))"
proof -
  let ?c = "print (Sent_packet packet) c1"
  have i': "incoming (socket ?c) = map Data ds @ rest"
    using write_socket_incoming(1) [OF w] i by simp
  have cl': "\<not> closed (socket ?c)"
    using write_socket_incoming(2) [OF w] cl by simp
  note wp = wait_packet_frame [OF i' ne f t l cl', of P "Some expect" Error]
  show ?thesis
    unfolding send_packet_def w
    by (simp add: wp split: option.splits)
qed


lemma write_socket_accept_all:
  assumes "outgoing (socket c) = []" and "\<not> closed (socket c)"
  shows "write_socket data c =
     (Inr (), c\<lparr>socket := (socket c)\<lparr>sent := sent (socket c) @ data\<rparr>\<rparr>)"
proof (cases "data = []")
  case True
  then show ?thesis
    unfolding write_socket_def by (subst write_loop.simps) simp
next
  case False
  then have "write_loop data (length data) c =
      write_loop (drop (length data) data) (length data - length data)
        (c\<lparr>socket := (socket c)\<lparr>sent := sent (socket c) @ data\<rparr>\<rparr>)"
    using assms by (subst write_loop.simps) (simp add: send_def)
  also have "\<dots> = (Inr (), c\<lparr>socket := (socket c)\<lparr>sent := sent (socket c) @ data\<rparr>\<rparr>)"
    by (subst write_loop.simps) simp
  finally show ?thesis
    unfolding write_socket_def .
qed

lemma frame_nonempty: "frame t data \<noteq> []"
  by (simp add: frame_def numeral_2_eq_2)

lemma example_chat_simps:
  "incoming (socket (example_chat evs)) = evs"
  "outgoing (socket (example_chat evs)) = []"
  "\<not> closed (socket (example_chat evs))"
  "sent (socket (example_chat evs)) = []"
  by (simp_all add: example_chat_def example_sock_def)

section \<open>Login\<close>

lemma lookup_character_find:
  "lookup_character character_id cs = find (\<lambda>ch. cid ch = character_id) cs"
  by (induction cs) auto

lemma lookup_character_None:
  "character_id \<notin> cid ` set cs \<Longrightarrow> lookup_character character_id cs = None"
  by (induction cs) auto

lemma lookup_character_Some:
  "character_id \<in> cid ` set cs \<Longrightarrow>
   \<exists>ch. lookup_character character_id cs = Some ch \<and> ch \<in> set cs \<and> cid ch = character_id"
  by (induction cs) auto

text \<open>
  Claim C5. If the requested id is not the id of any character of the stored list,
  \<open>login\<close> fails with \<open>ChatError("no valid characters to login.")\<close> and leaves
  the whole session as it was: nothing has been sent and the active character is
  unchanged. If the id is in the list, the login packet is written and the next
  frame on the connection is a login-ok packet, then \<open>login\<close> returns and the
  active character is the first character of the stored list with that id; the list
  itself is unchanged and exactly the login packet has been sent.
\<close>

theorem login_contract:
  "(character_id \<notin> cid ` set (characters c) \<longrightarrow>
      login P character_id c = (Inl (ChatError ''no valid characters to login.''), c)) \<and>
   (character_id \<in> cid ` set (characters c) \<and>
    write_socket (pack P (AOCP_LOGIN character_id)) c = (Inr (), c1) \<and>
    \<not> closed (socket c) \<and>
    incoming (socket c) = map Data ds @ rest \<and> [] \<notin> set ds \<and>
    concat ds = frame (AOSP_LOGIN_OK P) data \<and>
    AOSP_LOGIN_OK P < 65536 \<and> length data < 65536 \<longrightarrow>
      (\<exists>ch c'. login P character_id c = (Inr (), c') \<and>
         character c' = Some ch \<and> ch \<in> set (characters c) \<and> cid ch = character_id \<and>
         find (\<lambda>ch. cid ch = character_id) (characters c) = Some ch \<and>
         characters c' = characters c \<and>
         sent (socket c') = sent (socket c) @ pack P (AOCP_LOGIN character_id)))"
proof (intro conjI impI)
  assume "character_id \<notin> cid ` set (characters c)"
  then show "login P character_id c = (Inl (ChatError ''no valid characters to login.''), c)"
    by (simp add: login_def lookup_character_None)
next
  assume a: "character_id \<in> cid ` set (characters c) \<and>
    write_socket (pack P (AOCP_LOGIN character_id)) c = (Inr (), c1) \<and>
    \<not> closed (socket c) \<and>
    incoming (socket c) = map Data ds @ rest \<and> [] \<notin> set ds \<and>
    concat ds = frame (AOSP_LOGIN_OK P) data \<and>
    AOSP_LOGIN_OK P < 65536 \<and> length data < 65536"
  then have w: "write_socket (pack P (AOCP_LOGIN character_id)) c = (Inr (), c1)"
    and cl: "\<not> closed (socket c)"
    and i: "incoming (socket c) = map Data ds @ rest" and ne: "[] \<notin> set ds"
    and f: "concat ds = frame (AOSP_LOGIN_OK P) data"
    and t: "AOSP_LOGIN_OK P < 65536" and l: "length data < 65536"
    by simp_all
  from a obtain ch where ch: "lookup_character character_id (characters c) = Some ch"
    "ch \<in> set (characters c)" "cid ch = character_id"
    using lookup_character_Some [of character_id "characters c"] by blast
  let ?c' = "(print (Got_packet (PacketObj (AOSP_LOGIN_OK P) data))
              ((print (Sent_packet (AOCP_LOGIN character_id)) c1)
                 \<lparr>socket := (socket c1)\<lparr>incoming := rest\<rparr>\<rparr>))\<lparr>character := Some ch\<rparr>"
  have "login P character_id c = (Inr (), ?c')"
    unfolding login_def ch(1)
    by (simp add: send_packet_reply [OF w i ne f t l cl])
  moreover have "character ?c' = Some ch" by simp
  moreover have "characters ?c' = characters c"
    using write_socket_incoming(5) [OF w] by (simp add: print_def)
  moreover have "sent (socket ?c') = sent (socket c) @ pack P (AOCP_LOGIN character_id)"
    using write_socket_incoming(3) [OF w] by (simp add: print_def)
  moreover have "find (\<lambda>ch. cid ch = character_id) (characters c) = Some ch"
    using ch(1) by (simp add: lookup_character_find)
  ultimately show "\<exists>ch c'. login P character_id c = (Inr (), c') \<and>
         character c' = Some ch \<and> ch \<in> set (characters c) \<and> cid ch = character_id \<and>
         find (\<lambda>ch. cid ch = character_id) (characters c) = Some ch \<and>
         characters c' = characters c \<and>
         sent (socket c') = sent (socket c) @ pack P (AOCP_LOGIN character_id)"
    using ch(2,3) by blast
qed


section \<open>The event loop\<close>

text \<open>
  Claim C6. When the next frame on the connection has a type that is not in the
  registry of server packets, \<open>wait_packet()\<close> ends with \<open>UnexpectedPacket\<close>
  carrying the type and the raw payload. In the event loop the round that receives
  it prints the packet and goes on: the \<open>for\<close> loop ends normally, with a state
  in which no handler has had a part whatever the handler table is, and the
  \<open>while\<close> loop polls again.
\<close>

theorem unknown_packet_logged_and_skipped:
  assumes "incoming (socket c) = map Data ds @ rest" and "[] \<notin> set ds"
    and "concat ds = frame t data" and "t < 65536" and "length data < 65536"
    and "\<not> closed (socket c)" and "SERVER_PACKETS P t = None"
  shows "wait_packet P None None c =
           (Inl (UnexpectedPacket t (RawData data)),
            c\<lparr>socket := (socket c)\<lparr>incoming := rest\<rparr>\<rparr>) \<and>
         handle_events P events [(fd, POLLIN)] c =
           (Inr Next,
            print (Unexpected_packet t (RawData data))
              (c\<lparr>socket := (socket c)\<lparr>incoming := rest\<rparr>\<rparr>)) \<and>
         start_loop P events (Ready [(fd, POLLIN)] # polls) c =
           start_loop P events polls
             (print (Unexpected_packet t (RawData data))
                (c\<lparr>socket := (socket c)\<lparr>incoming := rest\<rparr>\<rparr>))"
proof -
  have w: "wait_packet P None None c =
           (Inl (UnexpectedPacket t (RawData data)),
            c\<lparr>socket := (socket c)\<lparr>incoming := rest\<rparr>\<rparr>)"
    using wait_packet_frame [OF assms(1-6), of P None None] assms(7) by simp
  have h: "handle_events P events [(fd, POLLIN)] c =
           (Inr Next,
            print (Unexpected_packet t (RawData data))
              (c\<lparr>socket := (socket c)\<lparr>incoming := rest\<rparr>\<rparr>))"
    by (simp add: w)
  have "start_loop P events (Ready [(fd, POLLIN)] # polls) c =
           start_loop P events polls
             (print (Unexpected_packet t (RawData data))
                (c\<lparr>socket := (socket c)\<lparr>incoming := rest\<rparr>\<rparr>))"
    by (simp only: start_loop.simps h prod.case sum.case flow.case list.distinct if_False)
  with w h show ?thesis by (intro conjI)
qed

text \<open>
  Claim C7. A poll that reports nothing makes the loop send the ping packet, and
  nothing else, and read one frame. If that frame is a pong the loop polls again, from
  a state in which no handler has had a part whatever the handler table is; a frame
  of any other type ends \<open>start\<close> with \<open>ChatError("Unexpected error.")\<close>.
\<close>

theorem keepalive_ping_pong:
  assumes "write_socket (pack P AOCP_PING) c = (Inr (), c1)"
    and "incoming (socket c) = map Data ds @ rest" and "[] \<notin> set ds"
    and "concat ds = frame t data" and "t < 65536" and "length data < 65536"
    and "\<not> closed (socket c)"
  shows "sent (socket c1) = sent (socket c) @ pack P AOCP_PING \<and>
         (t = AOSP_PING P \<longrightarrow>
            start_loop P events (Ready [] # polls) c =
              start_loop P events polls
                (print (Got_packet (PacketObj (AOSP_PING P) data))
                   ((print (Sent_packet AOCP_PING) c1)
                      \<lparr>socket := (socket c1)\<lparr>incoming := rest\<rparr>\<rparr>))) \<and>
         (t \<noteq> AOSP_PING P \<longrightarrow>
            start_loop P events (Ready [] # polls) c =
              (Inl (ChatError ''Unexpected error.''),
               (print (Sent_packet AOCP_PING) c1)
                  \<lparr>socket := (socket c1)\<lparr>incoming := rest\<rparr>\<rparr>))"
proof (intro conjI impI)
  show "sent (socket c1) = sent (socket c) @ pack P AOCP_PING"
    by (rule write_socket_incoming(3) [OF assms(1)])
next
  assume t: "t = AOSP_PING P"
  have "ping P c = (Inr (),
      print (Got_packet (PacketObj (AOSP_PING P) data))
        ((print (Sent_packet AOCP_PING) c1)\<lparr>socket := (socket c1)\<lparr>incoming := rest\<rparr>\<rparr>))"
    unfolding ping_def by (simp add: send_packet_reply [OF assms] t)
  then show "start_loop P events (Ready [] # polls) c =
      start_loop P events polls
        (print (Got_packet (PacketObj (AOSP_PING P) data))
           ((print (Sent_packet AOCP_PING) c1)
              \<lparr>socket := (socket c1)\<lparr>incoming := rest\<rparr>\<rparr>))"
    by simp
next
  assume t: "t \<noteq> AOSP_PING P"
  have "ping P c = (Inl (ChatError ''Unexpected error.''),
        (print (Sent_packet AOCP_PING) c1)\<lparr>socket := (socket c1)\<lparr>incoming := rest\<rparr>\<rparr>)"
    unfolding ping_def by (simp add: send_packet_reply [OF assms] t)
  then show "start_loop P events (Ready [] # polls) c =
      (Inl (ChatError ''Unexpected error.''),
       (print (Sent_packet AOCP_PING) c1)\<lparr>socket := (socket c1)\<lparr>incoming := rest\<rparr>\<rparr>)"
    by simp
qed


theorem login_contract_witness:
  "login example_packets 999 (example_chat []) =
     (Inl (ChatError ''no valid characters to login.''), example_chat []) \<and>
   (\<exists>c'. login example_packets 42 (example_chat [Data (frame 5 [])]) = (Inr (), c') \<and>
      character c' = Some \<lparr>cid = 42, cname = ''Bob''\<rparr>)"
proof -
  let ?c = "example_chat [Data (frame 5 [])]"
  have 1: "login example_packets 999 (example_chat []) =
     (Inl (ChatError ''no valid characters to login.''), example_chat [])"
    using login_contract [of 999 "example_chat []" example_packets]
    by (simp add: example_chat_def)
  have w: "write_socket (pack example_packets (AOCP_LOGIN 42)) ?c =
     (Inr (), ?c\<lparr>socket := (socket ?c)\<lparr>sent := sent (socket ?c) @ pack example_packets (AOCP_LOGIN 42)\<rparr>\<rparr>)"
    by (rule write_socket_accept_all) (simp_all add: example_chat_simps)
  have h: "42 \<in> cid ` set (characters ?c)" "\<not> closed (socket ?c)"
    "incoming (socket ?c) = map Data [frame 5 []] @ []" "[] \<notin> set [frame 5 []]"
    "concat [frame 5 []] = frame (AOSP_LOGIN_OK example_packets) []"
    "AOSP_LOGIN_OK example_packets < 65536" "length ([] :: string) < 65536"
    by (simp_all add: example_chat_simps frame_nonempty [symmetric] example_packets_def)
       (simp add: example_chat_def)
  from login_contract [of 42 ?c example_packets _ "[frame 5 []]" "[]" "[]"] w h
  obtain ch c' where "login example_packets 42 ?c = (Inr (), c')" "character c' = Some ch"
    "find (\<lambda>ch. cid ch = 42) (characters ?c) = Some ch"
    by blast
  moreover have "find (\<lambda>ch. cid ch = 42) (characters ?c) = Some \<lparr>cid = 42, cname = ''Bob''\<rparr>"
    by (simp add: example_chat_def)
  ultimately have "\<exists>c'. login example_packets 42 ?c = (Inr (), c') \<and>
      character c' = Some \<lparr>cid = 42, cname = ''Bob''\<rparr>"
    by auto
  with 1 show ?thesis by (intro conjI)
qed


theorem unknown_packet_logged_and_skipped_witness:
  "start_loop example_packets [999 \<mapsto> failing_handler] [Ready [(3, POLLIN)]]
      (example_chat [Data (frame 999 ''xyz'')]) =
     (Inr Polling, print (Unexpected_packet 999 (RawData ''xyz'')) (example_chat []))"
proof -
  let ?c = "example_chat [Data (frame 999 ''xyz'')]"
  have h: "incoming (socket ?c) = map Data [frame 999 ''xyz''] @ []"
    "[] \<notin> set [frame 999 ''xyz'']" "concat [frame 999 ''xyz''] = frame 999 ''xyz''"
    "(999::nat) < 65536" "length ''xyz'' < 65536" "\<not> closed (socket ?c)"
    "SERVER_PACKETS example_packets 999 = None"
    by (simp_all add: example_chat_simps frame_nonempty [symmetric] example_packets_def)
  have e: "?c\<lparr>socket := (socket ?c)\<lparr>incoming := []\<rparr>\<rparr> = example_chat []"
    by (simp add: example_chat_def example_sock_def)
  from unknown_packet_logged_and_skipped [OF h, of "[999 \<mapsto> failing_handler]" 3 "[]"]
  show ?thesis by (simp add: e)
qed

theorem keepalive_ping_pong_witness:
  "fst (start_loop example_packets [100 \<mapsto> failing_handler] [Ready []]
          (example_chat [Data (frame 100 [])])) = Inr Polling \<and>
   sent (socket (snd (start_loop example_packets [100 \<mapsto> failing_handler] [Ready []]
          (example_chat [Data (frame 100 [])])))) = frame 100 [] \<and>
   fst (start_loop example_packets [100 \<mapsto> failing_handler] [Ready []]
          (example_chat [Data (frame 5 [])])) = Inl (ChatError ''Unexpected error.'')"
proof -
  let ?c = "example_chat [Data (frame 100 [])]"
  let ?d = "example_chat [Data (frame 5 [])]"
  have p: "pack example_packets AOCP_PING = frame 100 []"
    "AOSP_PING example_packets = 100"
    by (simp_all add: example_packets_def)
  have w: "write_socket (pack example_packets AOCP_PING) ?c =
     (Inr (), ?c\<lparr>socket := (socket ?c)\<lparr>sent := sent (socket ?c) @ pack example_packets AOCP_PING\<rparr>\<rparr>)"
    by (rule write_socket_accept_all) (simp_all add: example_chat_simps)
  have w': "write_socket (pack example_packets AOCP_PING) ?d =
     (Inr (), ?d\<lparr>socket := (socket ?d)\<lparr>sent := sent (socket ?d) @ pack example_packets AOCP_PING\<rparr>\<rparr>)"
    by (rule write_socket_accept_all) (simp_all add: example_chat_simps)
  have h: "incoming (socket ?c) = map Data [frame 100 []] @ []"
    "[] \<notin> set [frame 100 []]" "concat [frame 100 []] = frame 100 []"
    "(100::nat) < 65536" "length ([] :: string) < 65536" "\<not> closed (socket ?c)"
    by (simp_all add: example_chat_simps frame_nonempty [symmetric])
  have h': "incoming (socket ?d) = map Data [frame 5 []] @ []"
    "[] \<notin> set [frame 5 []]" "concat [frame 5 []] = frame 5 []"
    "(5::nat) < 65536" "length ([] :: string) < 65536" "\<not> closed (socket ?d)"
    by (simp_all add: example_chat_simps frame_nonempty [symmetric])
  from keepalive_ping_pong [OF w h, of "[100 \<mapsto> failing_handler]" "[]"]
    keepalive_ping_pong [OF w' h', of "[100 \<mapsto> failing_handler]" "[]"]
  show ?thesis
    by (simp add: p example_chat_simps print_def)
qed

section \<open>The socket on the exit paths\<close>

lemma chat_init_Some:
  "\<exists>r c'. chat_init host dhx nonce P username password (Inr s) = (r, Some c')"
  by (simp add: chat_init_def split: prod.splits)

text \<open>
  Claim C9, as amended. No path through the session closes the socket. The
  constructor, whether the handshake succeeds or fails, leaves the socket it has
  connected as open or closed as it was created; so does \<open>login\<close>; and so does
  \<open>start\<close>, however it ends, as long as no handler closes the socket.
\<close>

theorem session_never_closes_socket:
  "(\<exists>r c'. chat_init host dhx nonce P username password (Inr s) = (r, Some c') \<and>
      closed (socket c') = closed s) \<and>
   closed (socket (snd (login P character_id c))) = closed (socket c) \<and>
   ((\<forall>t h c p. events t = Some h \<longrightarrow> closed (socket (snd (h c p))) = closed (socket c)) \<longrightarrow>
      closed (socket (snd (start P events polls c))) = closed (socket c))"
proof (intro conjI impI)
  from chat_init_Some obtain r c' where
    i: "chat_init host dhx nonce P username password (Inr s) = (r, Some c')" by blast
  from chat_init_closedD [OF i] i
  show "\<exists>r c'. chat_init host dhx nonce P username password (Inr s) = (r, Some c') \<and>
      closed (socket c') = closed s" by blast
next
  show "closed (socket (snd (login P character_id c))) = closed (socket c)"
    using login_closedD [of P character_id c] by (cases "login P character_id c") simp
next
  assume "\<forall>t h c p. events t = Some h \<longrightarrow> closed (socket (snd (h c p))) = closed (socket c)"
  then show "closed (socket (snd (start P events polls c))) = closed (socket c)"
    unfolding start_def by (intro start_loop_closed) blast
qed


theorem session_never_closes_socket_witness:
  "\<not> closed (socket (snd (start example_packets Map.empty [Ready [(3, POLLHUP)]]
        (example_chat [])))) \<and>
   \<not> closed (socket (snd (login example_packets 999 (example_chat []))))"
proof -
  have h: "\<forall>t h c p. (Map.empty :: nat \<rightharpoonup> handler) t = Some h \<longrightarrow>
      closed (socket (snd (h c p))) = closed (socket c)"
    by simp
  from session_never_closes_socket
    [of LittleEndian 0 0 example_packets "[]" "[]" "example_sock []" 999 "example_chat []"
       Map.empty "[Ready [(3, POLLHUP)]]"] h
  show ?thesis by (simp add: example_chat_simps)
qed

text \<open>
  Two exit paths on which the socket is still open when control returns: a
  constructor whose greeting packet is not a seed packet, and an event loop that ends
  on a hang-up.
\<close>

theorem exit_paths_leave_socket_open:
  "chat_init LittleEndian 0 0 example_packets ''user'' ''secret''
      (Inr (example_sock [Data (frame 6 ''no'')])) =
     (Inl (ChatError ''Unexpected error.''),
      Some \<lparr>socket = example_sock [], character = None, characters = [], stdout = []\<rparr>) \<and>
   \<not> closed (example_sock []) \<and>
   start example_packets Map.empty [Ready [(3, POLLHUP)]] (example_chat []) =
     (Inr Returned, print Hup (example_chat [])) \<and>
   \<not> closed (socket (print Hup (example_chat [])))"
proof -
  let ?c = "\<lparr>socket = example_sock [Data (frame 6 ''no'')], character = None,
      characters = [], stdout = []\<rparr>"
  have h: "incoming (socket ?c) = map Data [frame 6 ''no''] @ []"
    "[] \<notin> set [frame 6 ''no'']" "concat [frame 6 ''no''] = frame 6 ''no''"
    "(6::nat) < 65536" "length ''no'' < 65536" "\<not> closed (socket ?c)"
    by (simp_all add: example_sock_def frame_nonempty [symmetric])
  have w: "wait_packet example_packets (Some (AOSP_SEED example_packets)) None ?c =
      (Inl (ChatError ''Unexpected error.''),
       \<lparr>socket = example_sock [], character = None, characters = [], stdout = []\<rparr>)"
    using wait_packet_frame [OF h, of example_packets "Some (AOSP_SEED example_packets)" None]
    by (simp add: example_packets_def example_sock_def)
  have 1: "chat_init LittleEndian 0 0 example_packets ''user'' ''secret''
      (Inr (example_sock [Data (frame 6 ''no'')])) =
     (Inl (ChatError ''Unexpected error.''),
      Some \<lparr>socket = example_sock [], character = None, characters = [], stdout = []\<rparr>)"
    unfolding chat_init_def handshake_def by (simp add: w)
  have 2: "start example_packets Map.empty [Ready [(3, POLLHUP)]] (example_chat []) =
     (Inr Returned, print Hup (example_chat []))"
    by (simp add: start_def POLLHUP_def POLLIN_def)
  show ?thesis
    using 1 2 by (simp add: example_chat_simps) (simp add: example_sock_def)
qed

section \<open>Digits\<close>

lemma length_digits_w [simp]: "length (digits_w b k n) = k"
  by (induction k arbitrary: n) simp_all

lemma digits_w_0: "digits_w b k 0 = replicate k 0"
  by (induction k) (simp_all add: replicate_append_same)

lemma digits_w_add:
  "digits_w b (j + k) n = digits_w b j (n div b ^ k) @ digits_w b k n"
proof (induction k arbitrary: n)
  case 0
  then show ?case by simp
next
  case (Suc k)
  have "(n div b) div b ^ k = n div b ^ Suc k"
    by (simp add: div_mult2_eq)
  then show ?case by (simp add: Suc)
qed

lemma digits_w_bound: "0 < b \<Longrightarrow> d \<in> set (digits_w b k n) \<Longrightarrow> d < b"
  by (induction k arbitrary: n) auto

lemma radix_digits_eq_digits_w:
  assumes "2 \<le> b"
  shows "b ^ k \<le> n \<Longrightarrow> n < b ^ Suc k \<Longrightarrow> radix_digits b n = digits_w b (Suc k) n"
proof (induction k arbitrary: n)
  case 0
  then have "n < b" by simp
  then show ?case by (simp add: radix_digits.simps)
next
  case (Suc k)
  have nb: "\<not> n < b"
  proof -
    have "1 \<le> b ^ k" using assms by (simp add: Suc_le_eq)
    then have "b * 1 \<le> b * b ^ k" by (rule mult_le_mono2)
    also have "b * b ^ k \<le> n" using Suc.prems(1) by (simp only: power_Suc)
    finally show ?thesis by simp
  qed
  have lo: "b ^ k \<le> n div b"
  proof -
    have "b ^ k * b \<le> n" using Suc.prems by (simp add: mult.commute)
    then show ?thesis using assms by (simp add: less_eq_div_iff_mult_less_eq)
  qed
  have hi: "n div b < b ^ Suc k"
  proof -
    have "n < b ^ Suc k * b" using Suc.prems by (simp add: mult.commute)
    then show ?thesis using assms by (simp add: div_less_iff_less_mult)
  qed
  have "radix_digits b n = radix_digits b (n div b) @ [n mod b]"
    using nb assms by (subst radix_digits.simps) simp
  also have "radix_digits b (n div b) = digits_w b (Suc k) (n div b)"
    using lo hi by (rule Suc.IH)
  finally show ?case by simp
qed

lemma foldl_digits_w:
  "foldl (\<lambda>a d. b * a + d) acc (digits_w b k n) = acc * b ^ k + n mod b ^ k"
proof (induction k arbitrary: n)
  case 0
  then show ?case by simp
next
  case (Suc k)
  have "foldl (\<lambda>a d. b * a + d) acc (digits_w b (Suc k) n)
      = b * (acc * b ^ k + (n div b) mod b ^ k) + n mod b"
    by (simp add: Suc)
  also have "\<dots> = acc * b ^ Suc k + n mod b ^ Suc k"
    by (simp add: mod_mult2_eq algebra_simps)
  finally show ?case .
qed


lemma digits_w_pad:
  assumes "2 \<le> b"
  shows "n < b ^ Suc k \<Longrightarrow>
    digits_w b (Suc k) n = replicate (Suc k - length (radix_digits b n)) 0 @ radix_digits b n \<and>
    length (radix_digits b n) \<le> Suc k"
proof (induction k arbitrary: n)
  case 0
  then have "n < b" by simp
  then show ?case by (simp add: radix_digits.simps)
next
  case (Suc k)
  show ?case
  proof (cases "n < b")
    case True
    then have "radix_digits b n = [n]" by (simp add: radix_digits.simps)
    moreover have "digits_w b (Suc (Suc k)) n = replicate (Suc k) 0 @ [n]"
      using True digits_w_0 [of b "Suc k"] by simp
    ultimately show ?thesis by simp
  next
    case False
    have hi: "n div b < b ^ Suc k"
    proof -
      have "n < b ^ Suc k * b" using Suc.prems by (simp add: mult.commute)
      then show ?thesis using assms by (simp add: div_less_iff_less_mult)
    qed
    have r: "radix_digits b n = radix_digits b (n div b) @ [n mod b]"
      using False assms by (subst radix_digits.simps) simp
    from Suc.IH [OF hi] show ?thesis
      unfolding r by (simp add: Suc_diff_le)
  qed
qed

section \<open>Hexadecimal strings\<close>

lemma hexval_hexdigit: "d < 16 \<Longrightarrow> hexval (hexdigit d) = Some d"
proof -
  assume "d < 16"
  then have "d = 0 \<or> d = 1 \<or> d = 2 \<or> d = 3 \<or> d = 4 \<or> d = 5 \<or> d = 6 \<or> d = 7
    \<or> d = 8 \<or> d = 9 \<or> d = 10 \<or> d = 11 \<or> d = 12 \<or> d = 13 \<or> d = 14 \<or> d = 15"
    by arith
  then show ?thesis
    by (elim disjE) (simp_all add: hexval_def hexdigit_def)
qed

lemma int_hex_acc_digits:
  "\<forall>d \<in> set ds. d < 16 \<Longrightarrow>
   int_hex_acc acc (map hexdigit ds) = Inr (foldl (\<lambda>a d. 16 * a + d) acc ds)"
  by (induction ds arbitrary: acc) (simp_all add: hexval_hexdigit)

lemma int_base16_digits_w:
  "0 < k \<Longrightarrow> int_base16 (map hexdigit (digits_w 16 k n)) = Inr (n mod 16 ^ k)"
proof -
  assume k: "0 < k"
  have ne: "digits_w 16 k n \<noteq> []"
    using k length_digits_w [of 16 k n] by (metis length_0_conv less_numeral_extra(3))
  have b: "\<forall>d \<in> set (digits_w 16 k n). d < 16"
    using digits_w_bound [of 16] by simp
  show ?thesis
    unfolding int_base16_def using ne
    by (simp add: int_hex_acc_digits [OF b] foldl_digits_w)
qed

lemma fmt_x_digits_w:
  "16 ^ k \<le> n \<Longrightarrow> n < 16 ^ Suc k \<Longrightarrow> fmt_x n = map hexdigit (digits_w 16 (Suc k) n)"
  unfolding fmt_x_def by (subst radix_digits_eq_digits_w [of 16 k]) simp_all

lemma fmt_08x_digits_w:
  assumes "0 \<le> v" "v < 2 ^ 32"
  shows "fmt_08x v = map hexdigit (digits_w 16 8 (nat v))"
proof -
  have "nat v < 16 ^ Suc 7" using assms by simp
  from digits_w_pad [of 16, OF _ this]
  have "digits_w 16 8 (nat v)
      = replicate (8 - length (radix_digits 16 (nat v))) 0 @ radix_digits 16 (nat v)"
    by simp
  then show ?thesis
    using assms by (simp add: fmt_08x_def zero_pad_def fmt_x_def hexdigit_def)
qed


section \<open>Bytes and words\<close>

lemma be_value_snoc: "be_value (bs @ [c]) = 256 * be_value bs + of_char c"
  by (simp add: be_value_def)

lemma of_char_less_256: "(of_char c :: nat) < 256"
  using of_char_mod_256 [where ?'a = nat, of c] by (metis mod_less_divisor zero_less_numeral)

lemma be_value_less: "be_value bs < 256 ^ length bs"
proof (induction bs rule: rev_induct)
  case Nil
  then show ?case by (simp add: be_value_def)
next
  case (snoc c bs)
  have "256 * be_value bs + of_char c < 256 * (be_value bs + 1)"
    using of_char_less_256 [of c] by simp
  also have "\<dots> \<le> 256 * 256 ^ length bs"
    using snoc by (intro mult_le_mono2) simp
  finally show ?case by (simp add: be_value_snoc)
qed

lemma be_bytes_be_value: "be_bytes (length bs) (be_value bs) = bs"
proof (induction bs rule: rev_induct)
  case Nil
  then show ?case by simp
next
  case (snoc c bs)
  have d: "(256 * be_value bs + of_char c) div 256 = be_value bs"
    using of_char_less_256 [of c] by simp
  have m: "(256 * be_value bs + of_char c) mod 256 = (of_char c :: nat)"
    using of_char_less_256 [of c] by simp
  show ?case
    by (simp add: be_value_snoc d m snoc)
qed

lemma native_bytes_native_u32:
  "length bs = 4 \<Longrightarrow> native_bytes host (native_u32 host bs) = bs"
  using be_bytes_be_value [of bs] be_bytes_be_value [of "rev bs"]
  by (cases host) (simp_all add: native_bytes_def native_u32_def)

lemma native_u32_range:
  "length bs = 4 \<Longrightarrow> 0 \<le> native_u32 host bs \<and> native_u32 host bs < 2 ^ 32"
  using be_value_less [of bs] be_value_less [of "rev bs"]
  by (cases host) (simp_all add: native_u32_def)

lemma length_native_bytes [simp]: "length (native_bytes host w) = 4"
  by (cases host) (simp_all add: native_bytes_def)

lemma native_u32_native_bytes:
  assumes "0 \<le> w" "w < 2 ^ 32"
  shows "native_u32 host (native_bytes host w) = w"
proof -
  have "nat w mod 256 ^ 4 = nat w" using assms by simp
  then have "be_value (be_bytes 4 (nat w)) = nat w"
    by (simp only: be_value_be_bytes)
  then show ?thesis
    using assms by (cases host) (simp_all add: native_bytes_def native_u32_def)
qed

lemma ntohl_htonl:
  assumes "0 \<le> w" "w < 2 ^ 32"
  shows "htonl host w = Inr (int (be_value (native_bytes host w)))"
    and "ntohl host (int (be_value (native_bytes host w))) = Inr w"
proof -
  show "htonl host w = Inr (int (be_value (native_bytes host w)))"
    using assms by (simp add: htonl_def)
  have lt: "be_value (native_bytes host w) < 2 ^ 32"
    using be_value_less [of "native_bytes host w"] by simp
  have "be_bytes 4 (be_value (native_bytes host w)) = native_bytes host w"
    using be_bytes_be_value [of "native_bytes host w"] by simp
  then show "ntohl host (int (be_value (native_bytes host w))) = Inr w"
    using lt by (simp add: ntohl_def native_u32_native_bytes [OF assms])
qed

section \<open>Pieces of a list\<close>

lemma length_chunks [simp]: "length (chunks n k s) = n"
  by (induction n arbitrary: s) simp_all

lemma concat_chunks: "length s = n * k \<Longrightarrow> concat (chunks n k s) = s"
  by (induction n arbitrary: s) simp_all

lemma chunks_length_each:
  "n * k \<le> length s \<Longrightarrow> x \<in> set (chunks n k s) \<Longrightarrow> length x = k"
proof (induction n arbitrary: s)
  case 0
  then show ?case by simp
next
  case (Suc n)
  from Suc.prems(1) have k: "k \<le> length s" and d: "n * k \<le> length (drop k s)" by simp_all
  from Suc.prems(2) consider "x = take k s" | "x \<in> set (chunks n k (drop k s))" by auto
  then show ?case
  proof cases
    case 1
    then show ?thesis using k by simp
  next
    case 2
    then show ?thesis using Suc.IH [OF d] by blast
  qed
qed

lemma chunks_concat:
  "\<forall>x \<in> set xs. length x = k \<Longrightarrow> chunks (length xs) k (concat xs) = xs"
  by (induction xs) simp_all

lemma chunks_append:
  "length s = n * k \<Longrightarrow> chunks (n + m) k (s @ t) = chunks n k s @ chunks m k t"
  by (induction n arbitrary: s) simp_all

section \<open>TEA and its inverse\<close>

lemma mask32: "(x :: int) AND 0xFFFFFFFF = x mod 2 ^ 32"
proof -
  have "(0xFFFFFFFF :: int) = mask 32" by (simp add: mask_eq_exp_minus_1)
  then show ?thesis by (simp only: take_bit_eq_mask [symmetric] take_bit_eq_mod)
qed

lemma u32_mod: "u32 (x mod 2 ^ 32)"
  by (simp add: u32_def)

lemma u32_mask: "u32 (x AND 0xFFFFFFFF)"
  unfolding mask32 by (rule u32_mod)

lemma u32_self: "u32 x \<Longrightarrow> x mod 2 ^ 32 = x"
  by (simp add: u32_def)

lemma u32_take_bit: "u32 x \<longleftrightarrow> take_bit 32 x = x"
  unfolding u32_def by (rule take_bit_int_eq_self_iff [symmetric])

lemma u32_xor: "u32 x \<Longrightarrow> u32 y \<Longrightarrow> u32 (x XOR y)"
  unfolding u32_take_bit by (simp add: take_bit_xor)

lemma add_sub_mod:
  fixes x y :: int
  assumes "u32 x"
  shows "((x + y) mod 2 ^ 32 - y) mod 2 ^ 32 = x"
proof -
  have "((x + y) mod 2 ^ 32 - y) mod 2 ^ 32 = (x + y - y) mod 2 ^ 32"
    by (rule mod_diff_left_eq)
  also have "\<dots> = x mod 2 ^ 32" by (simp only: add_diff_cancel)
  also have "\<dots> = x" using assms by (rule u32_self)
  finally show ?thesis .
qed

lemma tea_unround_round:
  assumes "u32 sm" "u32 a" "u32 b"
  shows "tea_unround keys (tea_round keys (sm, a, b)) = (sm, a, b)"
  unfolding tea_round_def tea_unround_def Let_def prod.case mask32
  by (simp only: add_sub_mod [OF assms(1)] add_sub_mod [OF assms(2)] add_sub_mod [OF assms(3)])


lemma tea_round_u32:
  "tea_round keys st = (sm, a, b) \<Longrightarrow> u32 sm \<and> u32 a \<and> u32 b"
  unfolding tea_round_def Let_def
  by (cases st) (auto simp: u32_mask)

lemma tea_rounds_u32:
  assumes "u32 sm" "u32 a" "u32 b"
  shows "(tea_round keys ^^ n) (sm, a, b) = (sm', a', b') \<Longrightarrow> u32 sm' \<and> u32 a' \<and> u32 b'"
proof (induction n arbitrary: sm' a' b')
  case 0
  with assms show ?case by simp
next
  case (Suc n)
  then show ?case by (auto dest: tea_round_u32)
qed

lemma tea_unrounds_rounds:
  assumes "u32 sm" "u32 a" "u32 b"
  shows "(tea_unround keys ^^ n) ((tea_round keys ^^ n) (sm, a, b)) = (sm, a, b)"
proof (induction n)
  case 0
  then show ?case by simp
next
  case (Suc n)
  obtain sm' a' b' where st: "(tea_round keys ^^ n) (sm, a, b) = (sm', a', b')"
    by (cases "(tea_round keys ^^ n) (sm, a, b)")
  from tea_rounds_u32 [OF assms st] have u: "u32 sm'" "u32 a'" "u32 b'" by simp_all
  have r: "(tea_round keys ^^ Suc n) (sm, a, b) = tea_round keys (sm', a', b')"
    by (simp add: st)
  have "(tea_unround keys ^^ Suc n) ((tea_round keys ^^ Suc n) (sm, a, b))
      = (tea_unround keys ^^ n) (tea_unround keys (tea_round keys (sm', a', b')))"
    unfolding r by (simp only: funpow_Suc_right o_apply)
  also have "\<dots> = (tea_unround keys ^^ n) (sm', a', b')"
    by (simp only: tea_unround_round [OF u])
  also have "\<dots> = (sm, a, b)"
    using Suc st by simp
  finally show ?case .
qed

lemma tea_rounds_sum:
  "fst ((tea_round keys ^^ n) (sm, a, b)) = (sm + int n * delta) mod 2 ^ 32"
    if "u32 sm"
proof (induction n)
  case 0
  then show ?case using u32_self [OF that] by simp
next
  case (Suc n)
  obtain sm' a' b' where st: "(tea_round keys ^^ n) (sm, a, b) = (sm', a', b')"
    by (cases "(tea_round keys ^^ n) (sm, a, b)")
  with Suc have sm': "sm' = (sm + int n * delta) mod 2 ^ 32" by simp
  have "fst ((tea_round keys ^^ Suc n) (sm, a, b)) = (sm' + delta) mod 2 ^ 32"
    by (simp add: st tea_round_def Let_def mask32)
  also have "\<dots> = (sm + int n * delta + delta) mod 2 ^ 32"
    unfolding sm' by (rule mod_add_left_eq)
  also have "sm + int n * delta + delta = sm + int (Suc n) * delta"
    by (simp add: algebra_simps)
  finally show ?case .
qed

lemma final_sum: "(0 + int 32 * delta) mod 2 ^ 32 = 0xC6EF3720"
  by (simp add: delta_def)

lemma tea_decrypt_block:
  assumes "u32 a" "u32 b"
  shows "tea_decrypt keys (tea_block keys (a, b)) = (a, b)"
proof -
  have z: "u32 0" by (simp add: u32_def)
  obtain sm' a' b' where st: "(tea_round keys ^^ 32) (0, a, b) = (sm', a', b')"
    by (cases "(tea_round keys ^^ 32) (0, a, b)")
  have "sm' = 0xC6EF3720"
    using tea_rounds_sum [OF z, where keys = keys and n = 32 and a = a and b = b] st final_sum
    by simp
  then have "(tea_unround keys ^^ 32) (0xC6EF3720, a', b') = (0, a, b)"
    using tea_unrounds_rounds [OF z assms, where keys = keys and n = 32] st by simp
  then show ?thesis
    by (simp add: tea_decrypt_def tea_block_def st)
qed

lemma tea_block_u32: "u32 (fst (tea_block keys c)) \<and> u32 (snd (tea_block keys c))"
proof -
  obtain sm' a' b' where
    r: "tea_round keys ((tea_round keys ^^ 31) (0, fst c, snd c)) = (sm', a', b')"
    by (cases "tea_round keys ((tea_round keys ^^ 31) (0, fst c, snd c))")
  have "(tea_round keys ^^ Suc 31) (0, fst c, snd c)
      = tea_round keys ((tea_round keys ^^ 31) (0, fst c, snd c))"
    by (simp only: funpow.simps o_apply)
  then have "(tea_round keys ^^ 32) (0, fst c, snd c) = (sm', a', b')"
    using r by simp
  then have "tea_block keys c = (a', b')"
    by (simp only: tea_block_def snd_conv)
  with tea_round_u32 [OF r] show ?thesis by simp
qed

lemma getitem_keys:
  assumes "4 \<le> length (keys :: int list)"
  shows "getitem keys 0 = Inr (keys ! 0)" "getitem keys 1 = Inr (keys ! 1)"
    "getitem keys 2 = Inr (keys ! 2)" "getitem keys 3 = Inr (keys ! 3)"
  using assms by auto

lemma tea_loop_Suc:
  assumes "4 \<le> length keys"
  shows "tea_loop (Suc n) sm a b keys =
    (case tea_round keys (sm, a, b) of (sm', a', b') \<Rightarrow> tea_loop n sm' a' b' keys)"
  apply (subst tea_loop.simps)
  apply (simp only: getitem_keys [OF assms] bind_Inr tea_round_def)
  apply (simp only: Let_def prod.case)
  done

lemma tea_loop_rounds:
  "4 \<le> length keys \<Longrightarrow>
   tea_loop n sm a b keys = Inr (snd ((tea_round keys ^^ n) (sm, a, b)))"
proof (induction n arbitrary: sm a b)
  case 0
  then show ?case by simp
next
  case (Suc n)
  obtain sm' a' b' where r: "tea_round keys (sm, a, b) = (sm', a', b')"
    by (cases "tea_round keys (sm, a, b)")
  have "(tea_round keys ^^ Suc n) (sm, a, b) = (tea_round keys ^^ n) (sm', a', b')"
    by (simp only: funpow_Suc_right o_apply r)
  then show ?case
    using Suc.IH [OF Suc.prems, of sm' a' b'] tea_loop_Suc [OF Suc.prems, of n sm a b]
    by (simp only: r prod.case)
qed

lemma tea_encrypt_block:
  "4 \<le> length keys \<Longrightarrow> tea_encrypt c keys = Inr (tea_block keys c)"
  by (simp add: tea_encrypt_def tea_block_def tea_loop_rounds)

lemma tea_encrypt_InrD: "tea_encrypt c keys = Inr r \<Longrightarrow> 4 \<le> length keys"
proof (rule ccontr)
  assume a: "tea_encrypt c keys = Inr r" and "\<not> 4 \<le> length keys"
  then have "length keys < 4" by simp
  then have "tea_loop (Suc 31) 0 (fst c) (snd c) keys = Inl IndexError"
    unfolding tea_loop.simps Let_def
    by (auto simp: bind_def split: sum.splits)
  with a show False by (simp add: tea_encrypt_def)
qed

end
